theory Spec2Isabelle
  imports Complex_Main "HOL-Library.Log_Nat"
begin

section \<open>Path-wise utilization visualisation: the model\<close>

text \<open>
  The development embeds \<^verbatim>\<open>generate_utilization_at_time\<close> of
  \<^verbatim>\<open>satviz/scripts/visualize_path_wise_utilization.py\<close>.

  Conventions of the embedding.
  \<^item> The script is Python 3: \<^verbatim>\<open>/\<close> is true division and \<^verbatim>\<open>round\<close> returns an integer.
  \<^item> Python \<^verbatim>\<open>int\<close> is \<open>int\<close>. A Python \<^verbatim>\<open>float\<close> read from the utilization file is a
    \<open>pyfloat\<close>: a finite value, an infinity or NaN, compared as Python compares them. The
    quotient \<^verbatim>\<open>t / 1000000\<close> of two integers is the nearest binary64 value, ties to even,
    or OverflowError beyond the float range (\<open>py_truediv\<close>). The arithmetic of lines 220
    to 226 on a finite utilization is the exact arithmetic of the reals, a result beyond
    the float range standing for an infinity.
  \<^item> The builtin conversions \<^verbatim>\<open>int(s)\<close> and \<^verbatim>\<open>float(s)\<close> of a string are parameters
    \<open>int_of\<close> and \<open>float_of\<close> returning \<open>None\<close> where Python raises ValueError.
  \<^item> An exception is a value \<open>Inl e\<close> of the result type \<open>error + 'a\<close>.
  \<^item> The module globals \<^verbatim>\<open>paths_over_time\<close> and \<^verbatim>\<open>time_wise_util\<close> are passed
    explicitly; the function is called once, on their initial (empty) values.
\<close>

datatype error = IndexError | ValueError | KeyError | NameError | TypeError | SystemError
  | OverflowError | ZeroDivisionError

datatype pyfloat = Finite real | PosInf | NegInf | NaN

text \<open>\<^verbatim>\<open>x > y\<close> on floats: false whenever an operand is NaN.\<close>

fun float_gt :: "pyfloat \<Rightarrow> pyfloat \<Rightarrow> bool" where
  "float_gt NaN y = False"
| "float_gt x NaN = False"
| "float_gt (Finite x) (Finite y) = (x > y)"
| "float_gt PosInf PosInf = False"
| "float_gt PosInf y = True"
| "float_gt x PosInf = False"
| "float_gt NegInf y = False"
| "float_gt x NegInf = True"

definition and_then :: "error + 'a \<Rightarrow> ('a \<Rightarrow> error + 'b) \<Rightarrow> error + 'b" where
  "and_then r f = (case r of Inl e \<Rightarrow> Inl e | Inr x \<Rightarrow> f x)"

definition or_raise :: "error \<Rightarrow> 'a option \<Rightarrow> error + 'a" where
  "or_raise e v = (case v of None \<Rightarrow> Inl e | Some x \<Rightarrow> Inr x)"

text \<open>\<^verbatim>\<open>xs[i]\<close> for a non-negative constant index: IndexError out of range.\<close>

definition item :: "'a list \<Rightarrow> nat \<Rightarrow> error + 'a" where
  "item xs i = (if i < length xs then Inr (xs ! i) else Inl IndexError)"

text \<open>\<^verbatim>\<open>s.split(c)\<close> for a one-character separator: always at least one field.\<close>

fun split_on :: "char \<Rightarrow> string \<Rightarrow> string list" where
  "split_on c [] = [[]]"
| "split_on c (x # xs) =
     (if x = c then [] # split_on c xs
      else (case split_on c xs of [] \<Rightarrow> [[x]] | w # ws \<Rightarrow> (x # w) # ws))"

text \<open>Python 3 \<^verbatim>\<open>round(x)\<close> of a float: to the nearest integer, ties to the even one.\<close>

definition py_round :: "real \<Rightarrow> int" where
  "py_round x =
     (let f = \<lfloor>x\<rfloor>; d = x - of_int f
      in if d < 1 / 2 then f else if 1 / 2 < d then f + 1 else if even f then f else f + 1)"

text \<open>The integer nearest to \<open>num / den\<close> for \<open>den > 0\<close>, ties to the even one.\<close>

definition div_half_even :: "int \<Rightarrow> int \<Rightarrow> int" where
  "div_half_even num den =
     (let q = num div den; r = num mod den
      in if 2 * r < den then q else if den < 2 * r then q + 1 else if even q then q else q + 1)"

text \<open>For \<open>a \<noteq> 0\<close> and \<open>b > 0\<close>: the exponent \<open>e\<close> with \<open>2^e \<le> |a| / b < 2^(e + 1)\<close>.\<close>

definition binade :: "int \<Rightarrow> int \<Rightarrow> int" where
  "binade a b =
     (let d = bitlen \<bar>a\<bar> - bitlen b
      in if (if 0 \<le> d then b * 2 ^ nat d \<le> \<bar>a\<bar> else b \<le> \<bar>a\<bar> * 2 ^ nat (- d)) then d else d - 1)"

text \<open>
  \<^verbatim>\<open>a / b\<close> on integers: the binary64 value nearest to the exact quotient. With \<open>e\<close> the
  exponent of the quotient (at least \<open>-1022\<close>, where the subnormal values begin) the result
  is \<open>m * 2^(e - 52)\<close> for the integer \<open>m\<close> nearest to \<open>(a / b) / 2^(e - 52)\<close>, ties to even;
  a result of \<open>2^1024\<close> or more in magnitude is OverflowError.
\<close>

definition py_truediv :: "int \<Rightarrow> int \<Rightarrow> error + real" where
  "py_truediv a b =
     (if b = 0 then Inl ZeroDivisionError
      else if a = 0 then Inr 0
      else
        (let n = (if b < 0 then - a else a);
             d = \<bar>b\<bar>;
             k = 52 - max (binade n d) (- 1022);
             m = (if 0 \<le> k then div_half_even (n * 2 ^ nat k) d
                  else div_half_even n (d * 2 ^ nat (- k)))
         in if k < 0 \<and> 2 ^ 1024 \<le> \<bar>m\<bar> * 2 ^ nat (- k) then Inl OverflowError
            else Inr (if 0 \<le> k then of_int m / 2 ^ nat k else of_int m * 2 ^ nat (- k))))"

text \<open>\<^verbatim>\<open>round(t / 1000000)\<close>: nanoseconds to milliseconds.\<close>

definition ms_of_ns :: "int \<Rightarrow> error + int" where
  "ms_of_ns t = and_then (py_truediv t 1000000) (\<lambda>x. Inr (py_round x))"

definition UTIL_INTERVAL :: int where
  "UTIL_INTERVAL = 100"

subsection \<open>Path timeline (source lines 143 to 162)\<close>

type_synonym path_event = "int \<times> string list"

text \<open>One iteration of the reading loop, lines 145 to 147, up to the tuple appended.\<close>

definition read_path_line :: "(string \<Rightarrow> int option) \<Rightarrow> string \<Rightarrow> error + path_event" where
  "read_path_line int_of line =
     (let val = split_on CHR '','' line
      in and_then (item val 1) (\<lambda>v1.
           let nodes = split_on CHR ''-'' v1
           in and_then (item val 0) (\<lambda>v0.
                and_then (or_raise ValueError (int_of v0)) (\<lambda>t. Inr (t, nodes)))))"

text \<open>
  The loop of lines 144 to 147 over the lines of the path file. The local \<^verbatim>\<open>nodes\<close> is
  unbound (\<open>None\<close>) until the first iteration has assigned it.
\<close>

fun read_paths ::
  "(string \<Rightarrow> int option) \<Rightarrow> string list \<Rightarrow> path_event list \<Rightarrow> string list option
     \<Rightarrow> error + (path_event list \<times> string list option)" where
  "read_paths int_of [] paths_over_time nodes = Inr (paths_over_time, nodes)"
| "read_paths int_of (l # ls) paths_over_time nodes =
     and_then (read_path_line int_of l) (\<lambda>ev.
       read_paths int_of ls (paths_over_time @ [ev]) (Some (snd ev)))"

text \<open>Lines 143 to 148: the loop, then \<^verbatim>\<open>paths_over_time.append((0, nodes))\<close>.\<close>

definition build_timeline :: "(string \<Rightarrow> int option) \<Rightarrow> string list \<Rightarrow> error + path_event list" where
  "build_timeline int_of lines =
     and_then (read_paths int_of lines [] None) (\<lambda>(paths_over_time, nodes).
       and_then (or_raise NameError nodes) (\<lambda>ns. Inr (paths_over_time @ [(0, ns)])))"

text \<open>
  Lines 153 to 157: \<^verbatim>\<open>start_next\<close> is 99999999999 unless the \<^verbatim>\<open>try\<close> replaces it. The bare
  \<^verbatim>\<open>except\<close> catches whatever the body raises: the IndexError of \<^verbatim>\<open>paths_over_time[i + 1]\<close>
  at the last entry and the OverflowError of the division alike.
\<close>

definition next_start :: "path_event list \<Rightarrow> nat \<Rightarrow> int" where
  "next_start paths_over_time i =
     (case and_then (item paths_over_time (i + 1)) (\<lambda>ev. ms_of_ns (fst ev)) of
        Inl e \<Rightarrow> 99999999999
      | Inr start_next \<Rightarrow> start_next)"

text \<open>
  The scan of lines 151 to 162 from index \<open>i\<close>. Line 152 is outside the \<^verbatim>\<open>try\<close>: its
  OverflowError ends the function. Without a match the initial values
  \<^verbatim>\<open>SEL_PATH_TIME = 0\<close>, \<^verbatim>\<open>SEL_PATH = []\<close> remain.
\<close>

function resolve_from :: "path_event list \<Rightarrow> int \<Rightarrow> nat \<Rightarrow> error + (int \<times> string list)" where
  "resolve_from paths_over_time GEN_TIME i =
     (if i < length paths_over_time then
        (case ms_of_ns (fst (paths_over_time ! i)) of
           Inl e \<Rightarrow> Inl e
         | Inr start_ms \<Rightarrow>
             (let start_next = next_start paths_over_time i
              in if GEN_TIME \<ge> start_ms \<and> GEN_TIME < start_next
                 then Inr (fst (paths_over_time ! i), snd (paths_over_time ! i))
                 else resolve_from paths_over_time GEN_TIME (i + 1)))
      else Inr (0, []))"
  by pat_completeness auto
termination
  by (relation "measure (\<lambda>(paths_over_time, GEN_TIME, i). length paths_over_time - i)") auto

declare resolve_from.simps [simp del]

definition resolve :: "path_event list \<Rightarrow> int \<Rightarrow> error + (int \<times> string list)" where
  "resolve paths_over_time GEN_TIME = resolve_from paths_over_time GEN_TIME 0"

text \<open>
  The words of the specification for the scan. A timestamp is in float range when line 152
  can compute its start; the interval test of line 159 holds at index \<open>i\<close> when the start
  of entry \<open>i\<close> is at most the query time and the query time is below the next start.
\<close>

definition in_float_range :: "int \<Rightarrow> bool" where
  "in_float_range t = (case ms_of_ns t of Inl e \<Rightarrow> False | Inr start_ms \<Rightarrow> True)"

definition interval_holds :: "path_event list \<Rightarrow> int \<Rightarrow> nat \<Rightarrow> bool" where
  "interval_holds paths_over_time GEN_TIME i =
     (case ms_of_ns (fst (paths_over_time ! i)) of
        Inl e \<Rightarrow> False
      | Inr start_ms \<Rightarrow> start_ms \<le> GEN_TIME \<and> GEN_TIME < next_start paths_over_time i)"

subsection \<open>Utilization index (source lines 165 to 179)\<close>

type_synonym util_key = "int \<times> int \<times> int \<times> int"

type_synonym util_index = "util_key \<rightharpoonup> pyfloat"

type_synonym util_sample = "int \<times> int \<times> int \<times> int \<times> pyfloat"

text \<open>Lines 168 to 173: the fields of one line, converted in the order of the source.\<close>

definition read_util_line ::
  "(string \<Rightarrow> int option) \<Rightarrow> (string \<Rightarrow> pyfloat option) \<Rightarrow> string \<Rightarrow> error + util_sample" where
  "read_util_line int_of float_of line =
     (let val = split_on CHR '','' line
      in and_then (item val 0) (\<lambda>v0. and_then (or_raise ValueError (int_of v0)) (\<lambda>src.
         and_then (item val 1) (\<lambda>v1. and_then (or_raise ValueError (int_of v1)) (\<lambda>dst.
         and_then (item val 2) (\<lambda>v2. and_then (or_raise ValueError (int_of v2)) (\<lambda>start_ns.
         and_then (ms_of_ns start_ns) (\<lambda>start_ms.
         and_then (item val 3) (\<lambda>v3. and_then (or_raise ValueError (int_of v3)) (\<lambda>end_ns.
         and_then (ms_of_ns end_ns) (\<lambda>end_ms.
         and_then (item val 4) (\<lambda>v4. and_then (or_raise ValueError (float_of v4)) (\<lambda>utilization.
           Inr (src, dst, start_ms, end_ms, utilization))))))))))))))"

text \<open>
  Lines 174 and 175: \<^verbatim>\<open>if utilization > 1.0: SystemError("Util exceeded 1.0")\<close>. The
  statement builds the exception object and drops it; there is no \<^verbatim>\<open>raise\<close>, so control
  continues on both branches.
\<close>

definition util_check :: "pyfloat \<Rightarrow> error + unit" where
  "util_check utilization =
     (if float_gt utilization (Finite 1) then (let unraised = SystemError in Inr ()) else Inr ())"

text \<open>The \<^verbatim>\<open>while\<close> loop of lines 176 to 179, from the current value of \<^verbatim>\<open>interval\<close>.\<close>

function expand_buckets ::
  "util_index \<Rightarrow> int \<Rightarrow> int \<Rightarrow> int \<Rightarrow> int \<Rightarrow> pyfloat \<Rightarrow> int \<Rightarrow> util_index" where
  "expand_buckets time_wise_util src dst start_ms end_ms utilization interval =
     (if interval < end_ms - start_ms then
        expand_buckets
          (time_wise_util
             ((src, dst, start_ms + interval, start_ms + interval + UTIL_INTERVAL) \<mapsto> utilization))
          src dst start_ms end_ms utilization (interval + UTIL_INTERVAL)
      else time_wise_util)"
  by pat_completeness auto
termination
  by (relation "measure (\<lambda>(time_wise_util, src, dst, start_ms, end_ms, utilization, interval).
        nat (end_ms - start_ms - interval))")
     (auto simp: UTIL_INTERVAL_def)

declare expand_buckets.simps [simp del]

text \<open>Lines 174 to 179 for one converted sample: the check, then the loop from \<open>interval = 0\<close>.\<close>

definition store_sample :: "util_index \<Rightarrow> util_sample \<Rightarrow> error + util_index" where
  "store_sample time_wise_util sample =
     (case sample of (src, dst, start_ms, end_ms, utilization) \<Rightarrow>
        and_then (util_check utilization) (\<lambda>_.
          Inr (expand_buckets time_wise_util src dst start_ms end_ms utilization 0)))"

text \<open>The loop of lines 167 to 179 over the lines of the utilization file.\<close>

fun ingest_util ::
  "(string \<Rightarrow> int option) \<Rightarrow> (string \<Rightarrow> pyfloat option) \<Rightarrow> string list \<Rightarrow> util_index
     \<Rightarrow> error + util_index" where
  "ingest_util int_of float_of [] time_wise_util = Inr time_wise_util"
| "ingest_util int_of float_of (l # ls) time_wise_util =
     and_then (read_util_line int_of float_of l) (\<lambda>sample.
       and_then (store_sample time_wise_util sample) (\<lambda>twu.
         ingest_util int_of float_of ls twu))"

text \<open>\<^verbatim>\<open>time_wise_util[k]\<close>: a missing key raises KeyError.\<close>

definition lookup :: "util_index \<Rightarrow> util_key \<Rightarrow> error + pyfloat" where
  "lookup time_wise_util k = or_raise KeyError (time_wise_util k)"

text \<open>
  The key of the \<open>i\<close>-th bucket of a sample, in the words of the specification: consecutive
  windows of width \<^verbatim>\<open>UTIL_INTERVAL\<close> from \<open>start_ms\<close>; and the number of whole windows
  that fit between \<open>start_ms\<close> and \<open>end_ms\<close>.
\<close>

definition bucket_key :: "int \<Rightarrow> int \<Rightarrow> int \<Rightarrow> nat \<Rightarrow> util_key" where
  "bucket_key src dst start_ms i =
     (src, dst, start_ms + int i * UTIL_INTERVAL, start_ms + int i * UTIL_INTERVAL + UTIL_INTERVAL)"

definition full_buckets :: "int \<Rightarrow> int \<Rightarrow> nat" where
  "full_buckets start_ms end_ms = nat ((end_ms - start_ms) div UTIL_INTERVAL)"

subsection \<open>Rendering the selected path (source lines 206 to 239)\<close>

text \<open>
  The constellation constants \<^verbatim>\<open>NUM_ORBS\<close> and \<^verbatim>\<open>NUM_SATS_PER_ORB\<close> are plain numbers in
  the Starlink and Kuiper settings the file keeps in comments, and two-element lists in the
  Telesat setting it runs with (lines 84 to 106). Both shapes are values of \<open>pyval\<close>, with
  the \<^verbatim>\<open>*\<close> and \<^verbatim>\<open>-\<close> of line 208 as Python evaluates them.
\<close>

datatype pyval = PInt int | PList "int list"

fun py_mul :: "pyval \<Rightarrow> pyval \<Rightarrow> error + pyval" where
  "py_mul (PInt a) (PInt b) = Inr (PInt (a * b))"
| "py_mul (PInt n) (PList xs) = Inr (PList (concat (replicate (nat n) xs)))"
| "py_mul (PList xs) (PInt n) = Inr (PList (concat (replicate (nat n) xs)))"
| "py_mul (PList xs) (PList ys) = Inl TypeError"

fun py_int_sub :: "int \<Rightarrow> pyval \<Rightarrow> error + int" where
  "py_int_sub a (PInt b) = Inr (a - b)"
| "py_int_sub a (PList xs) = Inl TypeError"

text \<open>
  The module globals the loop reads. \<^verbatim>\<open>city_details\<close> (ground station id to name) and
  \<^verbatim>\<open>sat_objs\<close> (one opaque object per satellite) come from the \<^verbatim>\<open>util\<close> module, which
  is outside the file; they are taken as given.
\<close>

record 'sat globals =
  NUM_ORBS :: pyval
  NUM_SATS_PER_ORB :: pyval
  city_details :: "int \<rightharpoonup> string"
  sat_objs :: "'sat list"

text \<open>The Telesat constants of lines 94, 95, 102 and 103.\<close>

definition telesat :: "(int \<rightharpoonup> string) \<Rightarrow> 'sat list \<Rightarrow> 'sat globals" where
  "telesat cities sats =
     \<lparr>NUM_ORBS = PList [27, 40], NUM_SATS_PER_ORB = PList [13, 33],
      city_details = cities, sat_objs = sats\<rparr>"

text \<open>\<^verbatim>\<open>sat_objs[i]\<close> for a computed index: a negative index counts from the end.\<close>

definition sat_at :: "'sat list \<Rightarrow> int \<Rightarrow> error + 'sat" where
  "sat_at objs i =
     (let n = int (length objs)
      in if 0 \<le> i \<and> i < n then Inr (objs ! nat i)
         else if - n \<le> i \<and> i < 0 then Inr (objs ! nat (n + i))
         else Inl IndexError)"

text \<open>\<^verbatim>\<open>'%02x' % n\<close>: lower-case hexadecimal, zero-padded to two characters.\<close>

definition hex_digit :: "nat \<Rightarrow> char" where
  "hex_digit d = ''0123456789abcdef'' ! d"

fun hex_of_nat :: "nat \<Rightarrow> string" where
  "hex_of_nat n =
     (if n < 16 then [hex_digit n] else hex_of_nat (n div 16) @ [hex_digit (n mod 16)])"

definition fmt_02x :: "int \<Rightarrow> string" where
  "fmt_02x n =
     (if n < 0 then CHR ''-'' # hex_of_nat (nat (- n))
      else (let h = hex_of_nat (nat n) in if length h < 2 then CHR ''0'' # h else h))"

text \<open>Lines 221 to 226: the two branches of the colour ramp, as (red, green).\<close>

definition ramp_upper :: "real \<Rightarrow> int \<times> int" where
  "ramp_upper utilization = (255, 0 + py_round (255 * (1 - utilization) / (1 / 2)))"

definition ramp_lower :: "real \<Rightarrow> int \<times> int" where
  "ramp_lower utilization = (255 - py_round (255 * (1 / 2 - utilization) / (1 / 2)), 255)"

text \<open>Lines 220 to 227: line width and colour string of a utilization value.\<close>

definition encode :: "real \<Rightarrow> real \<times> string" where
  "encode utilization =
     (let link_width = 1 + 5 * utilization;
          (red_weight, green_weight) =
             (if utilization \<ge> 1 / 2 then ramp_upper utilization else ramp_lower utilization);
          hex_col = fmt_02x red_weight @ fmt_02x green_weight @ fmt_02x 0
      in (link_width, hex_col))"

text \<open>Lines 215 to 219: both directional lookups, then the larger value.\<close>

definition hop_utilization :: "util_index \<Rightarrow> int \<Rightarrow> int \<Rightarrow> int \<Rightarrow> error + pyfloat" where
  "hop_utilization time_wise_util sat1 sat2 GEN_TIME =
     and_then (lookup time_wise_util (sat1, sat2, GEN_TIME - UTIL_INTERVAL, GEN_TIME)) (\<lambda>util_1.
     and_then (lookup time_wise_util (sat2, sat1, GEN_TIME - UTIL_INTERVAL, GEN_TIME)) (\<lambda>util_2.
       Inr (if float_gt util_2 util_1 then util_2 else util_1)))"

text \<open>
  Lines 220 to 227 on the float of line 219. The \<^verbatim>\<open>round\<close> of line 223 or 226 raises
  ValueError on NaN (which takes the \<^verbatim>\<open>else\<close> branch) and OverflowError on an infinity.
  Its argument is an infinity for an infinite utilization and for a finite one so large
  that the product leaves the float range; in the exact arithmetic of the model that is a
  magnitude of \<open>2^1024\<close> or more.
\<close>

definition round_overflows :: "real \<Rightarrow> bool" where
  "round_overflows utilization =
     (2 ^ 1024 \<le> \<bar>255 * ((if utilization \<ge> 1 / 2 then 1 else 1 / 2) - utilization) / (1 / 2)\<bar>)"

definition encode_float :: "pyfloat \<Rightarrow> error + (real \<times> string)" where
  "encode_float utilization =
     (case utilization of
        Finite u \<Rightarrow> (if round_overflows u then Inl OverflowError else Inr (encode u))
      | NaN \<Rightarrow> Inl ValueError
      | PosInf \<Rightarrow> Inl OverflowError
      | NegInf \<Rightarrow> Inl OverflowError)"

text \<open>
  One polyline appended to \<^verbatim>\<open>viz_string\<close> (lines 229 to 239): the text is fixed by the two
  satellite objects, the width and the colour. The node numbers are kept beside them.
\<close>

record 'sat link =
  sat1 :: int
  sat2 :: int
  obj1 :: 'sat
  obj2 :: 'sat
  link_width :: real
  hex_col :: string

text \<open>Lines 213 to 239: the hop that starts at position \<open>p\<close>.\<close>

definition hop_step ::
  "'sat globals \<Rightarrow> (string \<Rightarrow> int option) \<Rightarrow> util_index \<Rightarrow> int \<Rightarrow> string list \<Rightarrow> nat
     \<Rightarrow> error + 'sat link" where
  "hop_step g int_of time_wise_util GEN_TIME SEL_PATH p =
     and_then (item SEL_PATH p) (\<lambda>n1. and_then (or_raise ValueError (int_of n1)) (\<lambda>s1.
     and_then (item SEL_PATH (p + 1)) (\<lambda>n2. and_then (or_raise ValueError (int_of n2)) (\<lambda>s2.
     and_then (hop_utilization time_wise_util s1 s2 GEN_TIME) (\<lambda>utilization.
     and_then (encode_float utilization) (\<lambda>enc.
     and_then (sat_at (sat_objs g) s1) (\<lambda>o1.
     and_then (sat_at (sat_objs g) s2) (\<lambda>o2.
       Inr \<lparr>sat1 = s1, sat2 = s2, obj1 = o1, obj2 = o2,
            link_width = fst enc, hex_col = snd enc\<rparr>))))))))"

text \<open>Lines 208 to 210: the ground station at position \<open>p\<close> extends the output file name.\<close>

definition gs_step ::
  "'sat globals \<Rightarrow> (string \<Rightarrow> int option) \<Rightarrow> string list \<Rightarrow> nat \<Rightarrow> string \<Rightarrow> error + string" where
  "gs_step g int_of SEL_PATH p OUT_HTML_FILE =
     and_then (item SEL_PATH p) (\<lambda>node. and_then (or_raise ValueError (int_of node)) (\<lambda>n.
     and_then (py_mul (NUM_ORBS g) (NUM_SATS_PER_ORB g)) (\<lambda>sat_count.
     and_then (py_int_sub n sat_count) (\<lambda>GS.
     and_then (or_raise KeyError (city_details g GS)) (\<lambda>name.
       Inr (OUT_HTML_FILE @ ''_'' @ name @ ''_'' @ node))))))"

text \<open>The body of the loop of line 206 at position \<open>p\<close>, on the links and file name so far.\<close>

definition render_step ::
  "'sat globals \<Rightarrow> (string \<Rightarrow> int option) \<Rightarrow> util_index \<Rightarrow> int \<Rightarrow> string list \<Rightarrow> nat
     \<Rightarrow> 'sat link list \<times> string \<Rightarrow> error + ('sat link list \<times> string)" where
  "render_step g int_of time_wise_util GEN_TIME SEL_PATH p st =
     (case st of (viz, OUT_HTML_FILE) \<Rightarrow>
        and_then (if p = 0 \<or> int p = int (length SEL_PATH) - 1
                  then gs_step g int_of SEL_PATH p OUT_HTML_FILE else Inr OUT_HTML_FILE) (\<lambda>out.
        and_then (if 0 < p \<and> int p < int (length SEL_PATH) - 2
                  then and_then (hop_step g int_of time_wise_util GEN_TIME SEL_PATH p)
                         (\<lambda>l. Inr (viz @ [l]))
                  else Inr viz) (\<lambda>viz'.
          Inr (viz', out))))"

text \<open>\<^verbatim>\<open>for p in range(...)\<close>: the body at each index in turn, stopping at the first error.\<close>

fun for_range :: "(nat \<Rightarrow> 's \<Rightarrow> error + 's) \<Rightarrow> nat list \<Rightarrow> 's \<Rightarrow> error + 's" where
  "for_range body [] st = Inr st"
| "for_range body (p # ps) st = and_then (body p st) (for_range body ps)"

definition render_path ::
  "'sat globals \<Rightarrow> (string \<Rightarrow> int option) \<Rightarrow> util_index \<Rightarrow> int \<Rightarrow> string list \<Rightarrow> string
     \<Rightarrow> error + ('sat link list \<times> string)" where
  "render_path g int_of time_wise_util GEN_TIME SEL_PATH OUT_HTML_FILE =
     for_range (render_step g int_of time_wise_util GEN_TIME SEL_PATH)
       [0 ..< length SEL_PATH] ([], OUT_HTML_FILE)"

text \<open>
  The function as a whole: timeline, selected path, utilization index, path links. The
  satellite markers and orbit links of lines 181 to 205 depend on neither the path nor the
  utilization and are produced by the \<^verbatim>\<open>util\<close> and \<^verbatim>\<open>ephem\<close> modules; they are left out.
\<close>

definition generate_utilization_at_time ::
  "'sat globals \<Rightarrow> (string \<Rightarrow> int option) \<Rightarrow> (string \<Rightarrow> pyfloat option) \<Rightarrow> string list
     \<Rightarrow> string list \<Rightarrow> int \<Rightarrow> string \<Rightarrow> error + ('sat link list \<times> string)" where
  "generate_utilization_at_time g int_of float_of path_lines util_lines GEN_TIME OUT_HTML_FILE =
     and_then (build_timeline int_of path_lines) (\<lambda>paths_over_time.
     and_then (resolve paths_over_time GEN_TIME) (\<lambda>(SEL_PATH_TIME, SEL_PATH).
     and_then (ingest_util int_of float_of util_lines Map.empty) (\<lambda>time_wise_util.
       render_path g int_of time_wise_util GEN_TIME SEL_PATH OUT_HTML_FILE)))"

text \<open>The positions whose hop the loop draws: the condition of line 211.\<close>

definition rendered :: "string list \<Rightarrow> nat \<Rightarrow> bool" where
  "rendered path p \<longleftrightarrow> 0 < p \<and> int p < int (length path) - 2"

subsection \<open>An example run\<close>

text \<open>
  A constellation of 3 orbits of 4 satellites (numbers 0 to 11, each standing for its own
  object) with ground stations 12 and 13, one path event and four utilization samples of
  200 ms each. The conversions are Python's \<^verbatim>\<open>int\<close> and \<^verbatim>\<open>float\<close> on the strings that
  occur. \<open>scenario_index\<close> and \<open>scenario_links\<close> are what ingestion and rendering at
  100 ms produce, as shown below.
\<close>

definition scenario_globals :: "nat globals" where
  "scenario_globals =
     \<lparr>NUM_ORBS = PInt 3, NUM_SATS_PER_ORB = PInt 4,
      city_details = [0 \<mapsto> ''Rio'', 1 \<mapsto> ''Oslo''], sat_objs = [0 ..< 12]\<rparr>"

definition scenario_int_of :: "string \<Rightarrow> int option" where
  "scenario_int_of =
     map_of [(''0'', 0), (''200000000'', 200000000), (''100000000'', 100000000), (''9'', 9),
             (''10'', 10), (''11'', 11), (''12'', 12), (''13'', 13), (''1671'', 1671),
             (''1672'', 1672)]"

definition scenario_float_of :: "string \<Rightarrow> pyfloat option" where
  "scenario_float_of =
     map_of [(''0.8'', Finite (4 / 5)), (''0.3'', Finite (3 / 10)), (''0.0'', Finite 0),
             (''1.0'', Finite 1), (''nan'', NaN)]"

definition scenario_path_lines :: "string list" where
  "scenario_path_lines = [''0,12-10-11-9-13'']"

definition scenario_util_lines :: "string list" where
  "scenario_util_lines =
     [''10,11,0,200000000,0.8'', ''11,10,0,200000000,0.3'',
      ''11,9,0,200000000,0.0'', ''9,11,0,200000000,1.0'']"

definition scenario_index :: util_index where
  "scenario_index =
     [(10, 11, 0, 100) \<mapsto> Finite (4 / 5), (10, 11, 100, 200) \<mapsto> Finite (4 / 5),
      (11, 10, 0, 100) \<mapsto> Finite (3 / 10), (11, 10, 100, 200) \<mapsto> Finite (3 / 10),
      (11, 9, 0, 100) \<mapsto> Finite 0, (11, 9, 100, 200) \<mapsto> Finite 0,
      (9, 11, 0, 100) \<mapsto> Finite 1, (9, 11, 100, 200) \<mapsto> Finite 1]"

text \<open>
  A path file for the Telesat constants (1671 satellites, ground stations from 1671 on),
  over the same satellites.
\<close>

definition telesat_path_lines :: "string list" where
  "telesat_path_lines = [''0,1671-10-11-9-1672'']"



definition scenario_links :: "nat link list" where
  "scenario_links =
     [\<lparr>sat1 = 10, sat2 = 11, obj1 = 10, obj2 = 11, link_width = 5, hex_col = ''ff6600''\<rparr>,
      \<lparr>sat1 = 11, sat2 = 9, obj1 = 11, obj2 = 9, link_width = 6, hex_col = ''ff0000''\<rparr>]"

section \<open>Properties\<close>

subsection \<open>Rounding and line reading\<close>

lemma py_round_of_int: "py_round (of_int n) = n"
  by (simp add: py_round_def)

lemma div_half_even_err:
  assumes "0 < den"
  shows "2 * \<bar>div_half_even num den * den - num\<bar> \<le> den"
proof -
  define q where "q = num div den"
  define r where "r = num mod den"
  have r: "0 \<le> r" "r < den" using assms by (simp_all add: r_def)
  have n: "num = q * den + r" by (simp add: q_def r_def)
  have "(q + 1) * den = q * den + den" by (simp add: algebra_simps)
  then show ?thesis
    unfolding div_half_even_def Let_def q_def[symmetric] r_def[symmetric]
    using r n by auto
qed

lemma div_half_even_exact:
  assumes "0 < den"
  shows "div_half_even (n * den) den = n"
  using assms by (simp add: div_half_even_def)

lemma bitlen_million: "bitlen 1000000 = 20"
  by (rule antisym) (simp_all add: bitlen_le_iff_power bitlen_ge_iff_power)

lemma binade_ms_le:
  assumes "t \<noteq> 0" and "\<bar>t\<bar> < 2 ^ 33 * 1000000"
  shows "binade t 1000000 \<le> 32"
proof -
  have "\<bar>t\<bar> < 2 ^ nat 53" using assms(2) by simp
  then have "bitlen \<bar>t\<bar> \<le> 53" by (simp add: bitlen_le_iff_power)
  then have d: "bitlen \<bar>t\<bar> - bitlen 1000000 \<le> 33" by (simp add: bitlen_million)
  show ?thesis
  proof (cases "bitlen \<bar>t\<bar> - bitlen 1000000 = 33")
    case True
    then show ?thesis using assms(2) by (simp add: binade_def)
  next
    case False
    with d have "bitlen \<bar>t\<bar> - bitlen 1000000 \<le> 32" by simp
    then show ?thesis by (simp add: binade_def Let_def)
  qed
qed

lemma py_round_between_lo:
  assumes "of_int q \<le> v" and "v < of_int q + 1 / 2"
  shows "py_round v = q"
proof -
  have "\<lfloor>v\<rfloor> = q" using assms by (intro floor_unique) auto
  then show ?thesis using assms by (simp add: py_round_def)
qed

lemma py_round_between_hi:
  assumes "of_int q + 1 / 2 < v" and "v < of_int q + 1"
  shows "py_round v = q + 1"
proof -
  have "\<lfloor>v\<rfloor> = q" using assms by (intro floor_unique) auto
  then show ?thesis using assms by (simp add: py_round_def)
qed

lemma py_round_half:
  "py_round (of_int q + 1 / 2) = (if even q then q else q + 1)"
proof -
  have "\<lfloor>real_of_int q + 1 / 2\<rfloor> = q" by (intro floor_unique) auto
  then show ?thesis by (simp add: py_round_def)
qed

lemma round_scaled_quotient:
  fixes t :: int and K :: nat
  assumes K: "20 \<le> K"
  shows "py_round (of_int (div_half_even (t * 2 ^ K) 1000000) / 2 ^ K) = div_half_even t 1000000"
proof -
  define P :: int where "P = 2 ^ K"
  define q where "q = t div 1000000"
  define r where "r = t mod 1000000"
  define m where "m = div_half_even (t * P) 1000000"
  define A where "A = q * P"
  have r: "0 \<le> r" "r < 1000000" by (simp_all add: r_def)
  have t: "t = 1000000 * q + r" by (simp add: q_def r_def)
  have "(2::int) ^ 20 \<le> 2 ^ K" using K by (intro power_increasing) simp_all
  then have P: "1048576 \<le> P" by (simp add: P_def)
  have tP: "t * P = 1000000 * A + r * P" by (simp add: t A_def algebra_simps)
  have "2 * \<bar>m * 1000000 - t * P\<bar> \<le> 1000000"
    unfolding m_def by (rule div_half_even_err) simp
  then have "\<bar>m * 1000000 - t * P\<bar> \<le> 500000" by simp
  then have "m * 1000000 - t * P \<le> 500000 \<and> - (m * 1000000 - t * P) \<le> 500000"
    by (simp only: abs_le_iff)
  then have err: "m * 1000000 - t * P \<le> 500000" "t * P - m * 1000000 \<le> 500000"
    by simp_all
  have rP_lo: "0 \<le> r * P" using r P by simp
  have Preal: "real_of_int P = 2 ^ K" by (simp add: P_def)
  have Ppos: "0 < real_of_int P" using P by simp
  have v: "real_of_int m / 2 ^ K = real_of_int m / real_of_int P" by (simp add: Preal)
  have Aq: "real_of_int A = real_of_int q * real_of_int P" by (simp add: A_def)
  have target: "div_half_even t 1000000 =
      (if 2 * r < 1000000 then q else if 1000000 < 2 * r then q + 1 else if even q then q else q + 1)"
    by (simp add: div_half_even_def q_def r_def Let_def)
  consider (lo) "r < 500000" | (hi) "500000 < r" | (eq) "r = 500000" by linarith
  then have "py_round (real_of_int m / real_of_int P) = div_half_even t 1000000"
  proof cases
    case lo
    then have "r * P \<le> 499999 * P" using P by (intro mult_right_mono) simp_all
    with err tP rP_lo P have "A \<le> m" by linarith
    moreover from \<open>r * P \<le> 499999 * P\<close> err tP rP_lo P have "2 * m < 2 * A + P" by linarith
    ultimately have "A \<le> m" and "2 * m < 2 * A + P" .
    then have "real_of_int A \<le> real_of_int m" and "2 * real_of_int m < 2 * real_of_int A + real_of_int P"
      by linarith+
    then have "real_of_int q \<le> real_of_int m / real_of_int P"
      and "real_of_int m / real_of_int P < real_of_int q + 1 / 2"
      using Ppos by (simp_all add: Aq field_simps)
    then have "py_round (real_of_int m / real_of_int P) = q" by (rule py_round_between_lo)
    with lo show ?thesis by (simp add: target)
  next
    case hi
    then have "500001 * P \<le> r * P" using P by (intro mult_right_mono) simp_all
    moreover have "r * P \<le> 999999 * P" using r P by (intro mult_right_mono) simp_all
    ultimately have b: "500001 * P \<le> r * P" "r * P \<le> 999999 * P" .
    from b err tP P have "2 * A + P < 2 * m" by linarith
    moreover from b err tP P have "m < A + P" by linarith
    ultimately have "2 * A + P < 2 * m" and "m < A + P" .
    then have "2 * real_of_int A + real_of_int P < 2 * real_of_int m"
      and "real_of_int m < real_of_int A + real_of_int P"
      by linarith+
    then have "real_of_int q + 1 / 2 < real_of_int m / real_of_int P"
      and "real_of_int m / real_of_int P < real_of_int q + 1"
      using Ppos by (simp_all add: Aq field_simps)
    then have "py_round (real_of_int m / real_of_int P) = q + 1" by (rule py_round_between_hi)
    with hi show ?thesis by (simp add: target)
  next
    case eq
    have "even P" using K by (simp add: P_def)
    then obtain H where H: "P = 2 * H" by (auto elim: evenE)
    have "t * P = 1000000 * A + 500000 * P" using tP eq by simp
    also have "\<dots> = (A + H) * 1000000" by (simp add: H algebra_simps)
    finally have "m = A + H" unfolding m_def by (simp only: div_half_even_exact)
    then have "real_of_int m / real_of_int P = real_of_int q + 1 / 2"
      using Ppos by (simp add: Aq H field_simps)
    then show ?thesis by (simp add: py_round_half target eq)
  qed
  then show ?thesis by (simp add: v m_def P_def)
qed

lemma py_truediv_shift:
  assumes "a \<noteq> 0" and "0 < b" and "k = 52 - max (binade a b) (- 1022)" and "0 \<le> k"
  shows "py_truediv a b = Inr (real_of_int (div_half_even (a * 2 ^ nat k) b) / 2 ^ nat k)"
proof -
  have n: "(if b < 0 then - a else a) = a" using assms(2) by simp
  have d: "\<bar>b\<bar> = b" using assms(2) by simp
  show ?thesis
    unfolding py_truediv_def Let_def n d assms(3)[symmetric]
    using assms(1,2,4) by simp
qed

lemma ms_of_ns_exact:
  assumes "\<bar>t\<bar> < 2 ^ 33 * 1000000"
  shows "ms_of_ns t = Inr (div_half_even t 1000000)"
proof (cases "t = 0")
  case True
  then show ?thesis
    by (simp add: ms_of_ns_def py_truediv_def and_then_def py_round_def div_half_even_def)
next
  case False
  define k where "k = 52 - max (binade t 1000000) (- 1022)"
  have "binade t 1000000 \<le> 32" using False assms by (rule binade_ms_le)
  then have k: "20 \<le> k" by (simp add: k_def)
  then have nk: "20 \<le> nat k" by simp
  have "py_truediv t 1000000 = Inr (of_int (div_half_even (t * 2 ^ nat k) 1000000) / 2 ^ nat k)"
    using False k by (intro py_truediv_shift) (simp_all add: k_def)
  then show ?thesis
    by (simp add: ms_of_ns_def and_then_def round_scaled_quotient[OF nk])
qed

lemma ms_of_ns_small:
  "ms_of_ns 0 = Inr 0" "ms_of_ns 5000 = Inr 0" "ms_of_ns 5000000 = Inr 5"
  "ms_of_ns 200000000 = Inr 200" "ms_of_ns 100000000 = Inr 100" "ms_of_ns 7000000 = Inr 7"
  by (simp_all add: ms_of_ns_exact div_half_even_def)

text \<open>
  Beyond \<open>2^33\<close> ms the rounding of the quotient to a float shows: the exact quotient
  below is under the half, the float is the half. Beyond the float range the division
  raises.
\<close>

lemma ms_of_ns_float_rounding: "ms_of_ns 17179869185499999 = Inr 17179869186"
  by code_simp

lemma ms_of_ns_overflow: "ms_of_ns (10 ^ 320) = Inl OverflowError"
  by code_simp

lemma ms_of_ns_error: "ms_of_ns t = Inl e \<Longrightarrow> e = OverflowError"
  by (auto simp: ms_of_ns_def py_truediv_def and_then_def Let_def split: if_splits)

lemma in_float_range_iff: "in_float_range t \<longleftrightarrow> (\<exists>s. ms_of_ns t = Inr s)"
  by (cases "ms_of_ns t") (simp_all add: in_float_range_def)

lemma in_float_range_small: "\<bar>t\<bar> < 2 ^ 33 * 1000000 \<Longrightarrow> in_float_range t"
  by (simp add: in_float_range_iff ms_of_ns_exact)

lemma split_on_nonempty: "split_on c s \<noteq> []"
  by (induction s) (auto split: list.splits)

lemma read_paths_ok:
  "map (read_path_line int_of) lines = map Inr events \<Longrightarrow>
   read_paths int_of lines pot nodes =
     Inr (pot @ events, if events = [] then nodes else Some (snd (last events)))"
proof (induction lines arbitrary: events pot nodes)
  case Nil
  then show ?case by simp
next
  case (Cons l ls)
  then obtain e es where ev: "events = e # es" and l: "read_path_line int_of l = Inr e"
    and ls: "map (read_path_line int_of) ls = map Inr es"
    by (cases events) auto
  show ?case
    using Cons.IH[OF ls, of "pot @ [e]" "Some (snd e)"] by (simp add: ev l and_then_def)
qed

subsection \<open>The scan for the active path\<close>

lemma next_start_last: "\<not> i + 1 < length pot \<Longrightarrow> next_start pot i = 99999999999"
  by (simp add: next_start_def item_def and_then_def)

lemma next_start_fails:
  "ms_of_ns (fst (pot ! (i + 1))) = Inl e \<Longrightarrow> next_start pot i = 99999999999"
  by (simp add: next_start_def item_def and_then_def)

lemma next_start_next:
  "i + 1 < length pot \<Longrightarrow> ms_of_ns (fst (pot ! (i + 1))) = Inr s \<Longrightarrow> next_start pot i = s"
  by (simp add: next_start_def item_def and_then_def)

lemma resolve_from_hit:
  "i < length pot \<Longrightarrow> interval_holds pot q i \<Longrightarrow> resolve_from pot q i = Inr (pot ! i)"
  by (subst resolve_from.simps) (auto simp: interval_holds_def Let_def split: sum.splits)

lemma resolve_from_skip:
  "i < length pot \<Longrightarrow> in_float_range (fst (pot ! i)) \<Longrightarrow> \<not> interval_holds pot q i \<Longrightarrow>
   resolve_from pot q i = resolve_from pot q (i + 1)"
  by (subst resolve_from.simps)
     (auto simp: interval_holds_def in_float_range_def Let_def split: sum.splits)

lemma resolve_from_raises:
  "i < length pot \<Longrightarrow> ms_of_ns (fst (pot ! i)) = Inl e \<Longrightarrow> resolve_from pot q i = Inl e"
  by (subst resolve_from.simps) simp

lemma resolve_from_end:
  "\<not> i < length pot \<Longrightarrow> resolve_from pot q i = Inr (0, [])"
  by (subst resolve_from.simps) simp

lemma resolve_from_skips:
  "i0 \<le> i \<Longrightarrow> i \<le> length pot \<Longrightarrow>
   (\<forall>j. i0 \<le> j \<and> j < i \<longrightarrow> in_float_range (fst (pot ! j)) \<and> \<not> interval_holds pot q j) \<Longrightarrow>
   resolve_from pot q i0 = resolve_from pot q i"
proof (induction "i - i0" arbitrary: i0)
  case 0
  then show ?case by simp
next
  case (Suc d)
  then have "i0 < i" and "i0 < length pot" by auto
  with Suc.prems have "resolve_from pot q i0 = resolve_from pot q (i0 + 1)"
    by (intro resolve_from_skip) auto
  also have "\<dots> = resolve_from pot q i"
    using Suc.hyps(1)[of "i0 + 1"] Suc.hyps(2) Suc.prems \<open>i0 < i\<close> by auto
  finally show ?case .
qed

lemma resolve_first:
  assumes "i < length pot" and "interval_holds pot q i"
    and "\<forall>j<i. in_float_range (fst (pot ! j)) \<and> \<not> interval_holds pot q j"
  shows "resolve pot q = Inr (pot ! i)"
proof -
  have "resolve_from pot q 0 = resolve_from pot q i"
    using assms by (intro resolve_from_skips) auto
  then show ?thesis
    by (simp add: resolve_def resolve_from_hit assms(1,2))
qed

lemma resolve_none:
  assumes "\<forall>j<length pot. in_float_range (fst (pot ! j)) \<and> \<not> interval_holds pot q j"
  shows "resolve pot q = Inr (0, [])"
proof -
  have "resolve_from pot q 0 = resolve_from pot q (length pot)"
    using assms by (intro resolve_from_skips) auto
  then show ?thesis
    by (simp add: resolve_def resolve_from_end)
qed

lemma resolve_raises:
  assumes "i < length pot" and "ms_of_ns (fst (pot ! i)) = Inl e"
    and "\<forall>j<i. in_float_range (fst (pot ! j)) \<and> \<not> interval_holds pot q j"
  shows "resolve pot q = Inl e"
proof -
  have "resolve_from pot q 0 = resolve_from pot q i"
    using assms by (intro resolve_from_skips) auto
  then show ?thesis
    by (simp add: resolve_def resolve_from_raises assms(1,2))
qed

lemma resolve_hits:
  assumes "\<forall>j<length pot. in_float_range (fst (pot ! j))"
    and "\<exists>j<length pot. interval_holds pot q j"
  shows "\<exists>i<length pot. interval_holds pot q i \<and> (\<forall>j<i. \<not> interval_holds pot q j)
           \<and> resolve pot q = Inr (pot ! i)"
proof -
  define i where "i = (LEAST j. j < length pot \<and> interval_holds pot q j)"
  from assms(2) obtain j0 where "j0 < length pot \<and> interval_holds pot q j0" by blast
  then have i: "i < length pot \<and> interval_holds pot q i"
    unfolding i_def by (rule LeastI)
  have least: "\<forall>j<i. \<not> interval_holds pot q j"
  proof (intro allI impI)
    fix j assume "j < i"
    then have "\<not> (j < length pot \<and> interval_holds pot q j)"
      unfolding i_def by (rule not_less_Least)
    with \<open>j < i\<close> i show "\<not> interval_holds pot q j" by simp
  qed
  have "resolve pot q = Inr (pot ! i)"
    using i least assms(1) by (intro resolve_first) auto
  with i least show ?thesis by blast
qed

lemma sentinel_holds:
  "0 \<le> q \<Longrightarrow> q < 99999999999 \<Longrightarrow>
   interval_holds (events @ [(0, ns)]) q (length events)"
  by (simp add: interval_holds_def next_start_last ms_of_ns_small)

lemma read_path_line_nodes: "read_path_line int_of l = Inr e \<Longrightarrow> snd e \<noteq> []"
  by (auto simp: read_path_line_def and_then_def or_raise_def Let_def split_on_nonempty
           split: sum.splits option.splits)

subsection \<open>Building the timeline\<close>

text \<open>
  Claim C7. When the path file has at least one line and every line converts, the timeline
  built by lines 143 to 148 is the events in file order followed by exactly one further
  entry: timestamp 0 with the node list of the last event read.
\<close>

theorem build_timeline_appends_sentinel:
  assumes "lines \<noteq> []" and "map (read_path_line int_of) lines = map Inr events"
  shows "build_timeline int_of lines = Inr (events @ [(0, snd (last events))])"
proof -
  from assms have "events \<noteq> []" by auto
  then show ?thesis
    by (simp add: build_timeline_def read_paths_ok[OF assms(2)] and_then_def or_raise_def)
qed

theorem build_timeline_appends_sentinel_witness:
  "build_timeline (map_of [(''0'', 0), (''5000000'', 5000000)]) [''0,A-B-C'', ''5000000,A-D-C'']
     = Inr [(0, [''A'', ''B'', ''C'']), (5000000, [''A'', ''D'', ''C'']), (0, [''A'', ''D'', ''C''])]"
proof -
  have ne: "[''0,A-B-C'', ''5000000,A-D-C''] \<noteq> []" by simp
  have ok: "map (read_path_line (map_of [(''0'', 0), (''5000000'', 5000000)]))
              [''0,A-B-C'', ''5000000,A-D-C'']
            = map Inr [(0, [''A'', ''B'', ''C'']), (5000000, [''A'', ''D'', ''C''])]"
    by (simp add: read_path_line_def and_then_def item_def or_raise_def)
  show ?thesis
    using build_timeline_appends_sentinel [OF ne ok] by simp
qed

subsection \<open>Resolving the active path\<close>

lemmas ms_of_ns_overflow_num = ms_of_ns_overflow [simplified]

lemma resolve_eval_ms:
  "resolve [(0, [''A'', ''B'', ''C'']), (5000000, [''A'', ''D'', ''C'']), (0, [''A'', ''D'', ''C''])] 2
     = Inr (0, [''A'', ''B'', ''C''])"
  "resolve [(0, [''A'', ''B'', ''C'']), (5000000, [''A'', ''D'', ''C'']), (0, [''A'', ''D'', ''C''])] 6
     = Inr (0, [''A'', ''D'', ''C''])"
  by (simp_all add: resolve_def resolve_from.simps next_start_def item_def and_then_def
        ms_of_ns_small)

lemma resolve_eval_ns:
  "resolve [(0, [''A'', ''B'', ''C'']), (5000, [''A'', ''D'', ''C'']), (0, [''A'', ''D'', ''C''])] 2
     = Inr (0, [''A'', ''D'', ''C''])"
  by (simp add: resolve_def resolve_from.simps next_start_def item_def and_then_def
        ms_of_ns_small)

lemma resolve_eval_far:
  "resolve [(0, [''A'', ''B'']), (0, [''A'', ''B''])] 100000000000 = Inr (0, [])"
  "resolve [(0, [''A'', ''B'']), (0, [''A'', ''B''])] 99999999999 = Inr (0, [])"
  by (simp_all add: resolve_def resolve_from.simps next_start_def item_def and_then_def
        ms_of_ns_small)

lemma resolve_eval_overflow:
  "resolve [(10 ^ 320, [''A'', ''B'']), (0, [''A'', ''B''])] 5 = Inl OverflowError"
  by (simp add: resolve_def resolve_from.simps ms_of_ns_overflow_num)

lemma build_two_events:
  assumes "int_of ''0'' = Some 0" and "int_of ''5000000'' = Some 5000000"
  shows "build_timeline int_of [''0,A-B-C'', ''5000000,A-D-C'']
     = Inr [(0, [''A'', ''B'', ''C'']), (5000000, [''A'', ''D'', ''C'']), (0, [''A'', ''D'', ''C''])]"
  by (simp add: build_timeline_def read_path_line_def and_then_def item_def or_raise_def assms)

text \<open>
  Claim C3, as the code has it. The scan returns the first timeline entry \<open>i\<close> whose
  interval test holds: its start \<open>round(t / 1000000)\<close> is at most the query time, and the
  query time is below the start of entry \<open>i + 1\<close>, taken as the constant 99999999999 of line
  153 when \<open>i\<close> is the last entry or when computing the next start fails. Without such an
  entry the result is time 0 with the empty path. This holds as long as the start of every
  entry scanned can be computed; the first one that cannot (a timestamp beyond the float
  range at line 152) ends the scan with its error. Timestamps are nanoseconds: for events
  at 0 ns and 5000000 ns (0 ms and 5 ms) a query at 2 ms gives the path of the first event
  and a query at 6 ms that of the second.
\<close>

theorem resolve_selects_first_interval:
  "(i < length pot \<and> interval_holds pot q i
      \<and> (\<forall>j<i. in_float_range (fst (pot ! j)) \<and> \<not> interval_holds pot q j)
      \<longrightarrow> resolve pot q = Inr (pot ! i))
   \<and> ((\<forall>j<length pot. in_float_range (fst (pot ! j)) \<and> \<not> interval_holds pot q j)
      \<longrightarrow> resolve pot q = Inr (0, []))
   \<and> (i < length pot \<and> ms_of_ns (fst (pot ! i)) = Inl e
      \<and> (\<forall>j<i. in_float_range (fst (pot ! j)) \<and> \<not> interval_holds pot q j)
      \<longrightarrow> resolve pot q = Inl e)
   \<and> (ms_of_ns (fst (pot ! i)) = Inr s
      \<longrightarrow> (interval_holds pot q i \<longleftrightarrow> s \<le> q \<and> q < next_start pot i))
   \<and> (i + 1 < length pot \<and> ms_of_ns (fst (pot ! (i + 1))) = Inr s' \<longrightarrow> next_start pot i = s')
   \<and> (\<not> i + 1 < length pot \<or> ms_of_ns (fst (pot ! (i + 1))) = Inl e'
      \<longrightarrow> next_start pot i = 99999999999)
   \<and> (int_of ''0'' = Some 0 \<and> int_of ''5000000'' = Some 5000000 \<longrightarrow>
        (\<exists>tl. build_timeline int_of [''0,A-B-C'', ''5000000,A-D-C''] = Inr tl
             \<and> resolve tl 2 = Inr (0, [''A'', ''B'', ''C''])
             \<and> resolve tl 6 = Inr (0, [''A'', ''D'', ''C''])))"
proof (intro conjI impI)
  assume "i < length pot \<and> interval_holds pot q i
      \<and> (\<forall>j<i. in_float_range (fst (pot ! j)) \<and> \<not> interval_holds pot q j)"
  then show "resolve pot q = Inr (pot ! i)"
    by (intro resolve_first) auto
next
  assume "\<forall>j<length pot. in_float_range (fst (pot ! j)) \<and> \<not> interval_holds pot q j"
  then show "resolve pot q = Inr (0, [])"
    by (rule resolve_none)
next
  assume "i < length pot \<and> ms_of_ns (fst (pot ! i)) = Inl e
      \<and> (\<forall>j<i. in_float_range (fst (pot ! j)) \<and> \<not> interval_holds pot q j)"
  then show "resolve pot q = Inl e"
    by (intro resolve_raises[of i]) auto
next
  assume "ms_of_ns (fst (pot ! i)) = Inr s"
  then show "interval_holds pot q i \<longleftrightarrow> s \<le> q \<and> q < next_start pot i"
    by (simp add: interval_holds_def)
next
  assume "i + 1 < length pot \<and> ms_of_ns (fst (pot ! (i + 1))) = Inr s'"
  then show "next_start pot i = s'"
    by (simp add: next_start_next)
next
  assume "\<not> i + 1 < length pot \<or> ms_of_ns (fst (pot ! (i + 1))) = Inl e'"
  then show "next_start pot i = 99999999999"
    using next_start_last[of i pot] next_start_fails[of pot i e'] by blast
next
  assume "int_of ''0'' = Some 0 \<and> int_of ''5000000'' = Some 5000000"
  then have "build_timeline int_of [''0,A-B-C'', ''5000000,A-D-C'']
     = Inr [(0, [''A'', ''B'', ''C'']), (5000000, [''A'', ''D'', ''C'']), (0, [''A'', ''D'', ''C''])]"
    by (intro build_two_events) auto
  then show "\<exists>tl. build_timeline int_of [''0,A-B-C'', ''5000000,A-D-C''] = Inr tl
             \<and> resolve tl 2 = Inr (0, [''A'', ''B'', ''C''])
             \<and> resolve tl 6 = Inr (0, [''A'', ''D'', ''C''])"
    by (simp add: resolve_eval_ms)
qed

theorem resolve_selects_first_interval_witness:
  "resolve [(0, [''A'', ''B'']), (7000000, [''A'', ''C'']), (0, [''A'', ''C''])] 9
     = Inr ([(0, [''A'', ''B'']), (7000000, [''A'', ''C'']), (0, [''A'', ''C''])] ! 2)
   \<and> resolve [(0, [''A'', ''B'']), (7000000, [''A'', ''C'']), (0, [''A'', ''C''])] (- 1) = Inr (0, [])
   \<and> resolve [(10 ^ 320, [''A'', ''B'']), (0, [''A'', ''B''])] 5 = Inl OverflowError
   \<and> interval_holds [(0, [''A'', ''B'']), (7000000, [''A'', ''C'']), (0, [''A'', ''C''])] 5 0
   \<and> next_start [(0, [''A'', ''B'']), (7000000, [''A'', ''C'']), (0, [''A'', ''C''])] 0 = 7
   \<and> next_start [(0, [''A'', ''B'']), (7000000, [''A'', ''C'']), (0, [''A'', ''C''])] 2 = 99999999999
   \<and> next_start [(0, [''A'', ''B'']), (10 ^ 320, [''A'', ''C'']), (0, [''A'', ''C''])] 0 = 99999999999
   \<and> (\<exists>tl. build_timeline (map_of [(''0'', 0), (''5000000'', 5000000)])
               [''0,A-B-C'', ''5000000,A-D-C''] = Inr tl
          \<and> resolve tl 2 = Inr (0, [''A'', ''B'', ''C''])
          \<and> resolve tl 6 = Inr (0, [''A'', ''D'', ''C'']))"
proof -
  let ?pot = "[(0, [''A'', ''B'']), (7000000, [''A'', ''C'']), (0::int, [''A'', ''C''])]"
  let ?big = "[(10 ^ 320, [''A'', ''B'']), (0::int, [''A'', ''B''])]"
  let ?mid = "[(0, [''A'', ''B'']), (10 ^ 320, [''A'', ''C'']), (0::int, [''A'', ''C''])]"
  have ms: "ms_of_ns (fst (?pot ! 0)) = Inr 0" "ms_of_ns (fst (?pot ! 1)) = Inr 7"
    "ms_of_ns (fst (?pot ! 2)) = Inr 0" "ms_of_ns (fst (?pot ! (0 + 1))) = Inr 7"
    by (simp_all add: ms_of_ns_small)
  have ns: "next_start ?pot 0 = 7" "next_start ?pot 1 = 0" "next_start ?pot 2 = 99999999999"
    by (simp_all add: next_start_def item_def and_then_def ms_of_ns_small)
  have h1: "2 < length ?pot \<and> interval_holds ?pot 9 2
      \<and> (\<forall>j<2. in_float_range (fst (?pot ! j)) \<and> \<not> interval_holds ?pot 9 j)"
    by (simp add: interval_holds_def ms_of_ns_small next_start_def item_def and_then_def
        in_float_range_def less_Suc_eq numeral_2_eq_2)
  have h2: "\<forall>j<length ?pot. in_float_range (fst (?pot ! j)) \<and> \<not> interval_holds ?pot (- 1) j"
    by (simp add: interval_holds_def ms_of_ns_small next_start_def item_def and_then_def
        in_float_range_def less_Suc_eq numeral_3_eq_3)
  have h3: "0 < length ?big \<and> ms_of_ns (fst (?big ! 0)) = Inl OverflowError
      \<and> (\<forall>j<0. in_float_range (fst (?big ! j)) \<and> \<not> interval_holds ?big 5 j)"
    by (simp add: ms_of_ns_overflow_num)
  have h4: "ms_of_ns (fst (?pot ! 0)) = Inr 0" by (rule ms)
  have h5: "0 + 1 < length ?pot \<and> ms_of_ns (fst (?pot ! (0 + 1))) = Inr 7"
    using ms by simp
  have h6: "\<not> 2 + 1 < length ?pot \<or> ms_of_ns (fst (?pot ! (2 + 1))) = Inl OverflowError"
    by simp
  have h7: "\<not> 0 + 1 < length ?mid \<or> ms_of_ns (fst (?mid ! (0 + 1))) = Inl OverflowError"
    by (simp add: ms_of_ns_overflow_num)
  have h8: "map_of [(''0'', 0), (''5000000'', 5000000)] ''0'' = Some (0::int)
      \<and> map_of [(''0'', 0), (''5000000'', 5000000)] ''5000000'' = Some (5000000::int)"
    by simp
  from h1 resolve_selects_first_interval [of 2 ?pot 9] have c1: "resolve ?pot 9 = Inr (?pot ! 2)"
    by blast
  from h2 resolve_selects_first_interval [of _ ?pot "- 1"] have c2: "resolve ?pot (- 1) = Inr (0, [])"
    by blast
  from h3 resolve_selects_first_interval [of 0 ?big 5 OverflowError]
  have c3: "resolve ?big 5 = Inl OverflowError"
    by blast
  from h4 resolve_selects_first_interval [of 0 ?pot 5 _ 0]
  have "interval_holds ?pot 5 0 \<longleftrightarrow> 0 \<le> (5::int) \<and> 5 < next_start ?pot 0"
    by blast
  then have c4: "interval_holds ?pot 5 0" by (simp add: ns)
  from h5 resolve_selects_first_interval [of 0 ?pot _ _ _ 7]
  have c5: "next_start ?pot 0 = 7"
    by blast
  from h6 resolve_selects_first_interval [of 2 ?pot _ _ _ _ OverflowError]
  have c6: "next_start ?pot 2 = 99999999999"
    by blast
  from h7 resolve_selects_first_interval [of 0 ?mid _ _ _ _ OverflowError]
  have c7: "next_start ?mid 0 = 99999999999"
    by blast
  from h8 resolve_selects_first_interval
    [of _ _ _ _ _ _ _ "map_of [(''0'', 0), (''5000000'', 5000000)]"]
  have c8: "\<exists>tl. build_timeline (map_of [(''0'', 0), (''5000000'', 5000000)])
               [''0,A-B-C'', ''5000000,A-D-C''] = Inr tl
          \<and> resolve tl 2 = Inr (0, [''A'', ''B'', ''C''])
          \<and> resolve tl 6 = Inr (0, [''A'', ''D'', ''C''])"
    by blast
  from c1 c2 c3 c4 c5 c6 c7 c8 show ?thesis by blast
qed

text \<open>
  Claim C3 as stated fails twice. An event at 5000 ns starts at \<open>round(0.005) = 0\<close> ms, not
  at 5 ms: with events at 0 ns and 5000 ns a query at 2 ms passes both events (their
  intervals are empty) and stops at the appended entry, whose path is that of the second
  event. And the bound of the last entry is 99999999999, not infinity: a query at
  100000000000 ms is at or after the start of the last entry, yet nothing is selected.
  A first event whose timestamp is beyond the float range ends the scan with the
  OverflowError of line 152, though the entry after it covers the query time.
\<close>

theorem resolve_5000ns_counterexample:
  "build_timeline (map_of [(''0'', 0), (''5000'', 5000)]) [''0,A-B-C'', ''5000,A-D-C'']
     = Inr [(0, [''A'', ''B'', ''C'']), (5000, [''A'', ''D'', ''C'']), (0, [''A'', ''D'', ''C''])]
   \<and> resolve [(0, [''A'', ''B'', ''C'']), (5000, [''A'', ''D'', ''C'']), (0, [''A'', ''D'', ''C''])] 2
       = Inr (0, [''A'', ''D'', ''C''])
   \<and> resolve [(0, [''A'', ''B'', ''C'']), (5000, [''A'', ''D'', ''C'']), (0, [''A'', ''D'', ''C''])] 2
       \<noteq> Inr (0, [''A'', ''B'', ''C''])
   \<and> ms_of_ns (fst ([(0, [''A'', ''B'']), (0, [''A'', ''B''])] ! 1)) = Inr 0
   \<and> (0::int) \<le> 100000000000
   \<and> resolve [(0, [''A'', ''B'']), (0, [''A'', ''B''])] 100000000000 = Inr (0, [])
   \<and> resolve [(10 ^ 320, [''A'', ''B'']), (0, [''A'', ''B''])] 5 = Inl OverflowError"
proof -
  have "build_timeline (map_of [(''0'', 0), (''5000'', 5000)]) [''0,A-B-C'', ''5000,A-D-C'']
     = Inr [(0, [''A'', ''B'', ''C'']), (5000, [''A'', ''D'', ''C'']), (0, [''A'', ''D'', ''C''])]
   \<and> resolve [(0, [''A'', ''B'', ''C'']), (5000, [''A'', ''D'', ''C'']), (0, [''A'', ''D'', ''C''])] 2
       = Inr (0, [''A'', ''D'', ''C''])
   \<and> resolve [(0, [''A'', ''B'', ''C'']), (5000, [''A'', ''D'', ''C'']), (0, [''A'', ''D'', ''C''])] 2
       \<noteq> Inr (0, [''A'', ''B'', ''C''])
   \<and> ms_of_ns (fst ([(0, [''A'', ''B'']), (0, [''A'', ''B''])] ! 1)) = Inr 0
   \<and> (0::int) \<le> 100000000000
   \<and> resolve [(0, [''A'', ''B'']), (0, [''A'', ''B''])] 100000000000 = Inr (0, [])"
    by (simp add: resolve_eval_ns resolve_eval_far build_timeline_def read_path_line_def
        and_then_def item_def or_raise_def ms_of_ns_small)
  with resolve_eval_overflow show ?thesis by blast
qed

text \<open>
  Claim C10, as the code has it. For a path file with at least one line, all of which
  convert, with timestamps that are all at least 0 and in float range (line 152 can
  compute their start), and a query time \<open>q\<close> with \<open>0 \<le> q < 99999999999\<close>, the scan returns
  an entry of the timeline, its node list is the node list of an event read from the file,
  and that list is not empty: the default of time 0 and the empty path is not the result.
  (The appended entry starts at 0 ms and ends at the constant of line 153, so its test
  holds when no earlier one does.)
\<close>

theorem resolve_returns_event_path:
  assumes "lines \<noteq> []" and "map (read_path_line int_of) lines = map Inr events"
    and "\<forall>e\<in>set events. 0 \<le> fst e \<and> in_float_range (fst e)"
    and "0 \<le> q" and "q < 99999999999"
  shows "\<exists>pot r. build_timeline int_of lines = Inr pot \<and> resolve pot q = Inr r \<and> r \<in> set pot
           \<and> snd r \<in> snd ` set events \<and> snd r \<noteq> []"
proof -
  define pot where "pot = events @ [(0, snd (last events))]"
  from assms(1,2) have ne: "events \<noteq> []" by auto
  have built: "build_timeline int_of lines = Inr pot"
    using ne by (simp add: pot_def build_timeline_def read_paths_ok[OF assms(2)]
        and_then_def or_raise_def)
  have known: "\<forall>j<length pot. in_float_range (fst (pot ! j))"
  proof (intro allI impI)
    fix j assume "j < length pot"
    then have "pot ! j \<in> set pot" by simp
    then have "pot ! j \<in> set events \<or> pot ! j = (0, snd (last events))"
      by (auto simp: pot_def)
    then show "in_float_range (fst (pot ! j))"
      using assms(3) by (auto simp: in_float_range_small)
  qed
  have "interval_holds pot q (length events)"
    unfolding pot_def using assms(4,5) by (rule sentinel_holds)
  then have "\<exists>j<length pot. interval_holds pot q j"
    by (auto simp: pot_def intro!: exI[of _ "length events"])
  from resolve_hits[OF known this] obtain i where
    i: "i < length pot" "resolve pot q = Inr (pot ! i)"
    by blast
  define r where "r = pot ! i"
  from i have mem: "r \<in> set pot" by (simp add: r_def)
  have "snd ` set pot = snd ` set events"
    using ne by (auto simp: pot_def intro!: image_eqI[of _ snd "last events"])
  with mem have ev: "snd r \<in> snd ` set events" by blast
  then obtain e where e: "e \<in> set events" "snd r = snd e" by auto
  then have "Inr e \<in> set (map (read_path_line int_of) lines)"
    by (simp add: assms(2))
  then obtain l where "read_path_line int_of l = Inr e" by auto
  then have "snd e \<noteq> []" by (rule read_path_line_nodes)
  with e have "snd r \<noteq> []" by simp
  moreover have "resolve pot q = Inr r" using i(2) by (simp add: r_def)
  ultimately show ?thesis using built mem ev by blast
qed

theorem resolve_returns_event_path_witness:
  "\<exists>pot r. build_timeline (map_of [(''0'', 0), (''5000000'', 5000000)])
            [''0,A-B-C'', ''5000000,A-D-C''] = Inr pot
     \<and> resolve pot 6 = Inr r
     \<and> r \<in> set pot
     \<and> snd r \<in> snd ` set [(0::int, [''A'', ''B'', ''C'']), (5000000, [''A'', ''D'', ''C''])]
     \<and> snd r \<noteq> []"
proof -
  have ne: "[''0,A-B-C'', ''5000000,A-D-C''] \<noteq> []" by simp
  have ok: "map (read_path_line (map_of [(''0'', 0), (''5000000'', 5000000)]))
              [''0,A-B-C'', ''5000000,A-D-C'']
            = map Inr [(0, [''A'', ''B'', ''C'']), (5000000, [''A'', ''D'', ''C''])]"
    by (simp add: read_path_line_def and_then_def item_def or_raise_def)
  have ts: "\<forall>e\<in>set [(0::int, [''A'', ''B'', ''C'']), (5000000, [''A'', ''D'', ''C''])].
      0 \<le> fst e \<and> in_float_range (fst e)"
    by (simp add: in_float_range_def ms_of_ns_small)
  have lo: "(0::int) \<le> 6" and hi: "(6::int) < 99999999999" by simp_all
  show ?thesis
    using resolve_returns_event_path [OF ne ok ts lo hi] .
qed

text \<open>
  Claim C10 as stated, for every query time from 0 on and all timestamps from 0 on, fails
  at the constant of line 153: at 99999999999 ms the test of the appended entry is false
  and the default is returned. It fails as well for a timestamp beyond the float range:
  line 152 raises OverflowError and nothing is returned.
\<close>

theorem resolve_beyond_sentinel_counterexample:
  "build_timeline (map_of [(''0'', 0)]) [''0,A-B''] = Inr [(0, [''A'', ''B'']), (0, [''A'', ''B''])]
   \<and> (0::int) \<le> 99999999999
   \<and> resolve [(0, [''A'', ''B'']), (0, [''A'', ''B''])] 99999999999 = Inr (0, [])
   \<and> (0::int) \<le> 10 ^ 320
   \<and> resolve [(10 ^ 320, [''A'', ''B'']), (0, [''A'', ''B''])] 5 = Inl OverflowError"
proof -
  have "build_timeline (map_of [(''0'', 0)]) [''0,A-B''] = Inr [(0, [''A'', ''B'']), (0, [''A'', ''B''])]"
    by (simp add: build_timeline_def read_path_line_def and_then_def item_def or_raise_def)
  moreover have "(0::int) \<le> 99999999999" by simp
  moreover have "(0::int) \<le> 10 ^ 320" by simp
  ultimately show ?thesis
    using resolve_eval_far(2) resolve_eval_overflow by blast
qed

subsection \<open>Expanding a sample into buckets\<close>

lemma expand_buckets_unfold:
  "expand_buckets twu src dst s e u iv =
     (if iv < e - s
      then expand_buckets (twu((src, dst, s + iv, s + iv + 100) \<mapsto> u)) src dst s e u (iv + 100)
      else twu)"
  by (subst expand_buckets.simps) (simp add: UTIL_INTERVAL_def)

lemma bucket_key_shift:
  "bucket_key src dst (s + (iv + 100)) j = bucket_key src dst (s + iv) (Suc j)"
  by (simp add: bucket_key_def UTIL_INTERVAL_def algebra_simps)

lemma bucket_key_0: "bucket_key src dst s 0 = (src, dst, s, s + 100)"
  by (simp add: bucket_key_def UTIL_INTERVAL_def)

lemma bucket_keys_step:
  assumes "iv < d"
  shows "{bucket_key src dst (s + iv) j | j. iv + int j * 100 < d}
       = insert (src, dst, s + iv, s + iv + 100)
           {bucket_key src dst (s + (iv + 100)) j | j. iv + 100 + int j * 100 < d}"
    (is "?L = insert ?k0 ?R")
proof (intro set_eqI iffI)
  fix k assume "k \<in> ?L"
  then obtain j where j: "k = bucket_key src dst (s + iv) j" "iv + int j * 100 < d" by blast
  show "k \<in> insert ?k0 ?R"
  proof (cases j)
    case 0
    with j show ?thesis by (simp add: bucket_key_0)
  next
    case (Suc j')
    with j have "k = bucket_key src dst (s + (iv + 100)) j'" and "iv + 100 + int j' * 100 < d"
      by (simp_all add: bucket_key_shift)
    then show ?thesis by blast
  qed
next
  fix k assume "k \<in> insert ?k0 ?R"
  then consider "k = ?k0"
    | j where "k = bucket_key src dst (s + (iv + 100)) j" "iv + 100 + int j * 100 < d"
    by blast
  then show "k \<in> ?L"
  proof cases
    case 1
    with assms show ?thesis by (intro CollectI exI[of _ 0]) (simp add: bucket_key_0)
  next
    case (2 j)
    then show ?thesis
      by (intro CollectI exI[of _ "Suc j"]) (simp add: bucket_key_shift)
  qed
qed

lemma expand_buckets_from:
  "expand_buckets twu src dst s e u iv =
     (\<lambda>k. if k \<in> {bucket_key src dst (s + iv) j | j. iv + int j * 100 < e - s}
          then Some u else twu k)"
proof (induction twu src dst s e u iv rule: expand_buckets.induct)
  case (1 twu src dst s e u iv)
  show ?case
  proof (cases "iv < e - s")
    case False
    then have "{bucket_key src dst (s + iv) j | j. iv + int j * 100 < e - s} = {}"
      by auto
    with False show ?thesis
      by (subst expand_buckets_unfold) simp
  next
    case True
    have ih: "expand_buckets (twu((src, dst, s + iv, s + iv + 100) \<mapsto> u)) src dst s e u (iv + 100)
        = (\<lambda>k. if k \<in> {bucket_key src dst (s + (iv + 100)) j | j. iv + 100 + int j * 100 < e - s}
               then Some u else (twu((src, dst, s + iv, s + iv + 100) \<mapsto> u)) k)"
      using "1.IH"[OF True] unfolding UTIL_INTERVAL_def .
    show ?thesis
      by (subst expand_buckets_unfold, subst ih, subst bucket_keys_step[OF True])
         (auto simp: fun_eq_iff True)
  qed
qed

lemma below_span_iff:
  assumes "0 < d"
  shows "int j * 100 < d \<longleftrightarrow> j < nat \<lceil>real_of_int d / real_of_int UTIL_INTERVAL\<rceil>"
proof -
  have "\<lceil>real_of_int d / real_of_int 100\<rceil> = - ((- d) div 100)"
    by (rule ceiling_divide_eq_div)
  then have "\<lceil>real_of_int d / real_of_int UTIL_INTERVAL\<rceil> = - ((- d) div 100)"
    by (simp add: UTIL_INTERVAL_def)
  then show ?thesis using assms by auto
qed

lemma expand_buckets_span:
  assumes "s < e"
  shows "expand_buckets twu src dst s e u 0 =
     (\<lambda>k. if k \<in> bucket_key src dst s ` {..< nat \<lceil>real_of_int (e - s) / real_of_int UTIL_INTERVAL\<rceil>}
          then Some u else twu k)"
proof -
  from assms have pos: "0 < e - s" by simp
  have "{bucket_key src dst (s + 0) j | j. 0 + int j * 100 < e - s}
      = bucket_key src dst s ` {..< nat \<lceil>real_of_int (e - s) / real_of_int UTIL_INTERVAL\<rceil>}"
    using below_span_iff[OF pos] by auto
  then show ?thesis
    by (simp add: expand_buckets_from)
qed

lemma inj_bucket_key: "inj (bucket_key src dst s)"
  by (auto simp: inj_on_def bucket_key_def UTIL_INTERVAL_def)

lemma card_bucket_keys: "card (bucket_key src dst s ` {..<n}) = n"
  by (simp add: card_image inj_bucket_key[THEN inj_on_subset])

lemma store_sample_eq:
  "store_sample twu (src, dst, s, e, u) = Inr (expand_buckets twu src dst s e u 0)"
  by (simp add: store_sample_def util_check_def and_then_def)

lemma ceil_span_bounds:
  assumes "0 < (d::int)"
  defines "n \<equiv> nat \<lceil>real_of_int d / real_of_int UTIL_INTERVAL\<rceil>"
  shows "d \<le> int n * 100" and "int n * 100 < d + 100" and "0 < n"
    and "\<not> 100 dvd d \<Longrightarrow> d < int n * 100"
proof -
  have "\<lceil>real_of_int d / real_of_int 100\<rceil> = - ((- d) div 100)"
    by (rule ceiling_divide_eq_div)
  then have c: "\<lceil>real_of_int d / real_of_int UTIL_INTERVAL\<rceil> = - ((- d) div 100)"
    by (simp add: UTIL_INTERVAL_def)
  define r where "r = (- d) mod 100"
  have r: "0 \<le> r" "r < 100" by (simp_all add: r_def)
  have split: "- d = 100 * ((- d) div 100) + r"
    by (simp add: r_def)
  have neg: "(- d) div 100 < 0"
    using assms(1) by (simp add: div_neg_pos_less0)
  have n: "int n = - ((- d) div 100)"
    unfolding n_def c using neg by simp
  show "d \<le> int n * 100" using n split r by linarith
  show "int n * 100 < d + 100" using n split r by linarith
  show "0 < n" using n neg by linarith
  show "d < int n * 100" if "\<not> 100 dvd d"
  proof -
    have "r \<noteq> 0" using that by (simp add: r_def mod_eq_0_iff_dvd)
    then show ?thesis using n split r by linarith
  qed
qed

lemma expand_buckets_empty_span:
  "e \<le> s \<Longrightarrow> expand_buckets twu src dst s e u 0 = twu"
  by (subst expand_buckets_unfold) simp

lemma ceil_is_full_plus_one:
  assumes "0 < (d::int)" and "\<not> UTIL_INTERVAL dvd d"
  shows "nat \<lceil>real_of_int d / real_of_int UTIL_INTERVAL\<rceil> = nat (d div UTIL_INTERVAL) + 1"
    and "int (nat (d div UTIL_INTERVAL)) * 100 < d"
    and "d < int (nat (d div UTIL_INTERVAL)) * 100 + 100"
proof -
  define q where "q = d div 100"
  define r where "r = d mod 100"
  have "0 \<le> r" and r2: "r < 100" by (simp_all add: r_def)
  moreover have "r \<noteq> 0"
    using assms(2) by (simp add: r_def UTIL_INTERVAL_def mod_eq_0_iff_dvd)
  ultimately have r1: "0 < r" by simp
  note r = r1 r2
  have split: "d = 100 * q + r" by (simp add: q_def r_def)
  have q: "0 \<le> q" using assms(1) by (simp add: q_def pos_imp_zdiv_nonneg_iff)
  have nd: "\<not> 100 dvd d" using assms(2) by (simp add: UTIL_INTERVAL_def)
  note b = ceil_span_bounds[OF assms(1)]
  let ?n = "nat \<lceil>real_of_int d / real_of_int UTIL_INTERVAL\<rceil>"
  have eq: "int ?n = q + 1" using b(1,2) b(4)[OF nd] split r by linarith
  have "?n = nat (int ?n)" by (simp only: nat_int)
  also have "\<dots> = nat (q + 1)" by (simp only: eq)
  also have "\<dots> = nat q + 1" using q by (simp add: nat_add_distrib)
  finally show "?n = nat (d div UTIL_INTERVAL) + 1"
    unfolding q_def UTIL_INTERVAL_def .
  show "int (nat (d div UTIL_INTERVAL)) * 100 < d"
    using q split r by (simp add: q_def[symmetric] UTIL_INTERVAL_def)
  show "d < int (nat (d div UTIL_INTERVAL)) * 100 + 100"
    using q split r by (simp add: q_def[symmetric] UTIL_INTERVAL_def)
qed

lemma ceil_310: "nat \<lceil>real_of_int (350 - 40) / real_of_int UTIL_INTERVAL\<rceil> = 4"
proof -
  have "\<lceil>real_of_int 310 / real_of_int 100\<rceil> = - ((- 310) div 100)"
    by (rule ceiling_divide_eq_div)
  then show ?thesis by (simp add: UTIL_INTERVAL_def)
qed

lemma full_buckets_250: "full_buckets 0 250 = 2"
  by (simp add: full_buckets_def UTIL_INTERVAL_def)

text \<open>
  Claim C9. For a sample with \<open>start_ms < end_ms\<close>, lines 174 to 179 write exactly
  \<open>n = ceil((end_ms - start_ms) / UTIL_INTERVAL)\<close> buckets, with keys
  \<open>(src, dst, start_ms + i * UTIL_INTERVAL, start_ms + (i + 1) * UTIL_INTERVAL)\<close> for
  \<open>i < n\<close>, pairwise distinct and all holding the sample's utilization; every other key
  keeps its value. Every instant of \<open>[start_ms, end_ms)\<close> lies in one of the buckets, and
  when the span is not a multiple of \<^verbatim>\<open>UTIL_INTERVAL\<close> the upper boundary of the last
  bucket is beyond \<open>end_ms\<close>.
\<close>

theorem store_sample_covers_span:
  assumes "start_ms < end_ms"
  defines "n \<equiv> nat \<lceil>real_of_int (end_ms - start_ms) / real_of_int UTIL_INTERVAL\<rceil>"
  shows "store_sample twu (src, dst, start_ms, end_ms, u) =
           Inr (\<lambda>k. if k \<in> bucket_key src dst start_ms ` {..<n} then Some u else twu k)
       \<and> card (bucket_key src dst start_ms ` {..<n}) = n
       \<and> (\<forall>t. start_ms \<le> t \<and> t < end_ms \<longrightarrow>
             (\<exists>i<n. start_ms + int i * UTIL_INTERVAL \<le> t
                   \<and> t < start_ms + int i * UTIL_INTERVAL + UTIL_INTERVAL))
       \<and> (\<not> UTIL_INTERVAL dvd (end_ms - start_ms) \<longrightarrow>
             end_ms < start_ms + int (n - 1) * UTIL_INTERVAL + UTIL_INTERVAL)"
proof (intro conjI allI impI)
  show "store_sample twu (src, dst, start_ms, end_ms, u) =
           Inr (\<lambda>k. if k \<in> bucket_key src dst start_ms ` {..<n} then Some u else twu k)"
    unfolding n_def by (simp add: store_sample_eq expand_buckets_span[OF assms(1)])
  show "card (bucket_key src dst start_ms ` {..<n}) = n"
    by (rule card_bucket_keys)
next
  from assms(1) have pos: "0 < end_ms - start_ms" by simp
  note b = ceil_span_bounds[OF pos, folded n_def]
  {
    fix t assume t: "start_ms \<le> t \<and> t < end_ms"
    define i where "i = nat ((t - start_ms) div 100)"
    have i: "int i = (t - start_ms) div 100" using t by (simp add: i_def)
    have "t - start_ms = 100 * ((t - start_ms) div 100) + (t - start_ms) mod 100"
      by simp
    moreover have "0 \<le> (t - start_ms) mod 100" "(t - start_ms) mod 100 < 100"
      by simp_all
    ultimately have lo: "start_ms + int i * 100 \<le> t" and hi: "t < start_ms + int i * 100 + 100"
      unfolding i by linarith+
    have "int i * 100 < end_ms - start_ms" using lo t by linarith
    then have "i < n" unfolding n_def by (simp add: below_span_iff[OF pos])
    with lo hi show "\<exists>i<n. start_ms + int i * UTIL_INTERVAL \<le> t
                   \<and> t < start_ms + int i * UTIL_INTERVAL + UTIL_INTERVAL"
      by (auto simp: UTIL_INTERVAL_def)
  }
  {
    assume "\<not> UTIL_INTERVAL dvd (end_ms - start_ms)"
    then have "end_ms - start_ms < int n * 100" using b(4) by (simp add: UTIL_INTERVAL_def)
    moreover have "int (n - 1) = int n - 1" using b(3) by simp
    ultimately show "end_ms < start_ms + int (n - 1) * UTIL_INTERVAL + UTIL_INTERVAL"
      by (simp add: UTIL_INTERVAL_def algebra_simps)
  }
qed

theorem store_sample_covers_span_witness:
  "(40::int) < 350
   \<and> store_sample Map.empty (7, 8, 40, 350, Finite (1 / 4)) =
       Inr (\<lambda>k. if k \<in> bucket_key 7 8 40 ` {..<4} then Some (Finite (1 / 4)) else None)
   \<and> card (bucket_key 7 8 40 ` {..<4}) = 4
   \<and> (\<exists>i<4. 40 + int i * UTIL_INTERVAL \<le> 349 \<and> 349 < 40 + int i * UTIL_INTERVAL + UTIL_INTERVAL)
   \<and> \<not> UTIL_INTERVAL dvd (350 - 40)
   \<and> (350::int) < 40 + int (4 - 1) * UTIL_INTERVAL + UTIL_INTERVAL"
proof -
  have h: "(40::int) < 350" by simp
  have nd: "\<not> UTIL_INTERVAL dvd (350 - 40)" by (simp add: UTIL_INTERVAL_def)
  have t: "(40::int) \<le> 349 \<and> (349::int) < 350" by simp
  note th = store_sample_covers_span [OF h, of Map.empty 7 8 "Finite (1 / 4)", unfolded ceil_310]
  from th have c1: "store_sample Map.empty (7, 8, 40, 350, Finite (1 / 4)) =
       Inr (\<lambda>k. if k \<in> bucket_key 7 8 40 ` {..<4} then Some (Finite (1 / 4)) else None)" by blast
  from th have c2: "card (bucket_key 7 8 40 ` {..<4}) = 4" by blast
  from th t have c3: "\<exists>i<4. 40 + int i * UTIL_INTERVAL \<le> 349 \<and> 349 < 40 + int i * UTIL_INTERVAL + UTIL_INTERVAL"
    by blast
  from th nd have c4: "(350::int) < 40 + int (4 - 1) * UTIL_INTERVAL + UTIL_INTERVAL" by blast
  from h c1 c2 c3 nd c4 show ?thesis by blast
qed

text \<open>
  Claim C1, as the code has it. A sample with \<open>end_ms \<le> start_ms\<close> writes nothing. For a
  sample with \<open>start_ms < end_ms\<close> whose span is not a multiple of \<^verbatim>\<open>UTIL_INTERVAL\<close>,
  expansion writes the full buckets that fit within the span and one more bucket of full
  width over the tail: one bucket more than fit, each full bucket ending at or before
  \<open>end_ms\<close>, the last one starting before \<open>end_ms\<close> and ending after it. A span of 250 ms
  gives 3 buckets.
\<close>

theorem store_sample_keeps_tail_bucket:
  "(end_ms \<le> start_ms \<longrightarrow> store_sample twu (src, dst, start_ms, end_ms, u) = Inr twu)
    \<and> (start_ms < end_ms \<and> \<not> UTIL_INTERVAL dvd (end_ms - start_ms) \<longrightarrow>
         store_sample twu (src, dst, start_ms, end_ms, u) =
           Inr (\<lambda>k. if k \<in> bucket_key src dst start_ms ` {..full_buckets start_ms end_ms}
                    then Some u else twu k)
       \<and> card (bucket_key src dst start_ms ` {..full_buckets start_ms end_ms})
           = full_buckets start_ms end_ms + 1
       \<and> (\<forall>i<full_buckets start_ms end_ms.
             start_ms + int i * UTIL_INTERVAL + UTIL_INTERVAL \<le> end_ms)
       \<and> start_ms + int (full_buckets start_ms end_ms) * UTIL_INTERVAL < end_ms
       \<and> end_ms < start_ms + int (full_buckets start_ms end_ms) * UTIL_INTERVAL + UTIL_INTERVAL)"
proof (intro conjI impI)
  assume "end_ms \<le> start_ms"
  then show "store_sample twu (src, dst, start_ms, end_ms, u) = Inr twu"
    by (simp add: store_sample_eq expand_buckets_empty_span)
next
  define full where "full = full_buckets start_ms end_ms"
  assume a: "start_ms < end_ms \<and> \<not> UTIL_INTERVAL dvd (end_ms - start_ms)"
  then have pos: "0 < end_ms - start_ms" and lt: "start_ms < end_ms"
    and nd: "\<not> UTIL_INTERVAL dvd (end_ms - start_ms)" by simp_all
  note c = ceil_is_full_plus_one[OF pos nd, folded full_buckets_def, folded full_def]
  have set_eq: "{..< full + 1} = {..full}"
    by auto
  show "store_sample twu (src, dst, start_ms, end_ms, u) =
           Inr (\<lambda>k. if k \<in> bucket_key src dst start_ms ` {..full} then Some u else twu k)"
    using expand_buckets_span[OF lt, of twu src dst u]
    unfolding store_sample_eq c(1) set_eq by simp
  show "card (bucket_key src dst start_ms ` {..full}) = full + 1"
    using card_bucket_keys[of src dst start_ms "full + 1"]
    unfolding set_eq by simp
  show "\<forall>i<full. start_ms + int i * UTIL_INTERVAL + UTIL_INTERVAL \<le> end_ms"
  proof (intro allI impI)
    fix i assume "i < full"
    then have "int i + 1 \<le> int full" by simp
    then have "(int i + 1) * 100 \<le> int full * 100" by simp
    with c(2) show "start_ms + int i * UTIL_INTERVAL + UTIL_INTERVAL \<le> end_ms"
      by (simp add: UTIL_INTERVAL_def algebra_simps)
  qed
  show "start_ms + int full * UTIL_INTERVAL < end_ms"
    using c(2) by (simp add: UTIL_INTERVAL_def)
  show "end_ms < start_ms + int full * UTIL_INTERVAL + UTIL_INTERVAL"
    using c(3) by (simp add: UTIL_INTERVAL_def)
qed

theorem store_sample_keeps_tail_bucket_witness:
  "store_sample Map.empty (1, 2, 300, 250, Finite (1 / 2)) = Inr Map.empty
   \<and> (0::int) < 250 \<and> \<not> UTIL_INTERVAL dvd (250 - 0)
   \<and> store_sample Map.empty (1, 2, 0, 250, Finite (1 / 2)) =
        Inr (\<lambda>k. if k \<in> bucket_key 1 2 0 ` {..2} then Some (Finite (1 / 2)) else None)
   \<and> card (bucket_key 1 2 0 ` {..2}) = 2 + 1
   \<and> 0 + int 0 * UTIL_INTERVAL + UTIL_INTERVAL \<le> 250
   \<and> 0 + int 1 * UTIL_INTERVAL + UTIL_INTERVAL \<le> 250
   \<and> 0 + int 2 * UTIL_INTERVAL < 250
   \<and> 250 < 0 + int 2 * UTIL_INTERVAL + UTIL_INTERVAL"
proof -
  have h0: "(250::int) \<le> 300" by simp
  have h1: "(0::int) < 250 \<and> \<not> UTIL_INTERVAL dvd (250 - 0)"
    by (simp add: UTIL_INTERVAL_def)
  from h0 store_sample_keeps_tail_bucket [of 250 300 Map.empty 1 2 "Finite (1 / 2)"]
  have c0: "store_sample Map.empty (1, 2, 300, 250, Finite (1 / 2)) = Inr Map.empty"
    by blast
  from h1 store_sample_keeps_tail_bucket [of 250 0 Map.empty 1 2 "Finite (1 / 2)", unfolded full_buckets_250]
  have c1: "store_sample Map.empty (1, 2, 0, 250, Finite (1 / 2)) =
        Inr (\<lambda>k. if k \<in> bucket_key 1 2 0 ` {..2} then Some (Finite (1 / 2)) else None)
   \<and> card (bucket_key 1 2 0 ` {..2}) = 2 + 1
   \<and> (\<forall>i<2. 0 + int i * UTIL_INTERVAL + UTIL_INTERVAL \<le> 250)
   \<and> 0 + int 2 * UTIL_INTERVAL < 250
   \<and> 250 < 0 + int 2 * UTIL_INTERVAL + UTIL_INTERVAL"
    by blast
  from c1 have c2: "0 + int 0 * UTIL_INTERVAL + UTIL_INTERVAL \<le> 250"
    and c3: "0 + int 1 * UTIL_INTERVAL + UTIL_INTERVAL \<le> 250"
    by simp_all
  from c0 h1 c1 c2 c3 show ?thesis by blast
qed

text \<open>
  Claim C1 as stated (the tail is dropped, a span of 250 gives 2 buckets, no boundary
  beyond \<open>end_ms\<close>) fails on the sample from 0 to 250: the loop condition of line 177
  still holds at \<open>interval = 200\<close>, so the bucket from 200 to 300 is written as well.
\<close>

theorem store_sample_span_250_counterexample:
  "store_sample Map.empty (1, 2, 0, 250, Finite (1 / 2)) =
     Inr [(1, 2, 0, 100) \<mapsto> Finite (1 / 2), (1, 2, 100, 200) \<mapsto> Finite (1 / 2),
          (1, 2, 200, 300) \<mapsto> Finite (1 / 2)]
   \<and> (250::int) < 300"
  by (simp add: store_sample_eq expand_buckets_unfold)

text \<open>
  Claim C2 (ingestion aborts on a utilization above 1). The statement of line 175 has no
  \<^verbatim>\<open>raise\<close>: the check returns normally, and the line \<^verbatim>\<open>10,11,0,100000000,1.5\<close> is
  stored with the value 1.5.
\<close>

theorem ingest_util_above_one_is_stored:
  "util_check (Finite (3 / 2)) = Inr ()
   \<and> ingest_util (map_of [(''10'', 10), (''11'', 11), (''0'', 0), (''100000000'', 100000000)])
       (map_of [(''1.5'', Finite (3 / 2))]) [''10,11,0,100000000,1.5''] Map.empty
     = Inr [(10, 11, 0, 100) \<mapsto> Finite (3 / 2)]"
  by (simp add: util_check_def read_util_line_def and_then_def item_def or_raise_def
        store_sample_eq expand_buckets_unfold ms_of_ns_small)

subsection \<open>The encoder\<close>

lemma py_round_numeral [simp]: "py_round (numeral n) = numeral n" "py_round 0 = 0" "py_round 1 = 1"
  by (simp_all add: py_round_def)

lemma fmt_vals: "fmt_02x 255 = ''ff''" "fmt_02x 0 = ''00''" "fmt_02x 102 = ''66''"
  by (simp_all add: fmt_02x_def hex_digit_def)

text \<open>
  Claim C5. Utilization 0 gives colour 00ff00 and width 1, utilization 1 gives ff0000 and
  width 6, utilization 1/2 gives ffff00 and width 7/2. The width is \<open>1 + 5 * utilization\<close>
  for every utilization, and its values over the utilizations from 0 to 1 are exactly the
  interval from 1 to 6. The two branches of the colour ramp give the same (red, green) at
  utilization 1/2.
\<close>

theorem encode_endpoints:
  "encode 0 = (1, ''00ff00'') \<and> encode 1 = (6, ''ff0000'') \<and> encode (1 / 2) = (7 / 2, ''ffff00'')
   \<and> fst (encode u) = 1 + 5 * u
   \<and> (\<lambda>u. fst (encode u)) ` {0 .. 1} = {1 .. 6}
   \<and> ramp_upper (1 / 2) = ramp_lower (1 / 2)"
proof (intro conjI)
  show "encode 0 = (1, ''00ff00'')"
    by (simp add: encode_def ramp_lower_def fmt_vals)
  show "encode 1 = (6, ''ff0000'')"
    by (simp add: encode_def ramp_upper_def fmt_vals)
  show "encode (1 / 2) = (7 / 2, ''ffff00'')"
    by (simp add: encode_def ramp_upper_def fmt_vals)
  show w: "fst (encode u) = 1 + 5 * u" for u
    by (simp add: encode_def Let_def split: prod.splits)
  show "(\<lambda>u. fst (encode u)) ` {0 .. 1} = {1 .. 6}"
  proof (intro set_eqI iffI)
    fix w assume "w \<in> (\<lambda>u. fst (encode u)) ` {0 .. 1}"
    then show "w \<in> {1 .. 6}" by (auto simp: w)
  next
    fix x :: real assume "x \<in> {1 .. 6}"
    then have "(x - 1) / 5 \<in> {0 .. 1}" by simp
    moreover have "fst (encode ((x - 1) / 5)) = x"
      unfolding w by (simp add: field_simps)
    ultimately have "(x - 1) / 5 \<in> {0 .. 1}" and "fst (encode ((x - 1) / 5)) = x" by blast+
    then show "x \<in> (\<lambda>u. fst (encode u)) ` {0 .. 1}" by (metis (mono_tags) image_eqI)
  qed
  show "ramp_upper (1 / 2) = ramp_lower (1 / 2)"
    by (simp add: ramp_upper_def ramp_lower_def)
qed

lemma encode_4_5: "encode (4 / 5) = (5, ''ff6600'')"
  by (simp add: encode_def ramp_upper_def fmt_vals)

lemma encode_full: "encode 1 = (6, ''ff0000'')"
  by (simp add: encode_def ramp_upper_def fmt_vals)


subsection \<open>The rendering loop\<close>

lemma and_then_Inr:
  "and_then r f = Inr y \<longleftrightarrow> (\<exists>x. r = Inr x \<and> f x = Inr y)"
  by (cases r) (simp_all add: and_then_def)

lemma or_raise_Inr: "or_raise e v = Inr x \<longleftrightarrow> v = Some x"
  by (cases v) (simp_all add: or_raise_def)

lemma item_Inr: "item xs i = Inr x \<longleftrightarrow> i < length xs \<and> xs ! i = x"
  by (auto simp: item_def)

lemma lookup_Inr: "lookup twu k = Inr v \<longleftrightarrow> twu k = Some v"
  by (simp add: lookup_def or_raise_Inr)

lemma hop_utilization_both:
  assumes "twu (a, b, q - UTIL_INTERVAL, q) = Some u1" and "twu (b, a, q - UTIL_INTERVAL, q) = Some u2"
  shows "hop_utilization twu a b q = Inr (if float_gt u2 u1 then u2 else u1)"
  using assms by (simp add: hop_utilization_def lookup_def or_raise_def and_then_def)

lemma hop_utilization_Inr:
  assumes "hop_utilization twu a b q = Inr u"
  shows "\<exists>u1 u2. twu (a, b, q - UTIL_INTERVAL, q) = Some u1 \<and> twu (b, a, q - UTIL_INTERVAL, q) = Some u2
        \<and> u = (if float_gt u2 u1 then u2 else u1)"
proof -
  from assms obtain u1 u2 where k: "twu (a, b, q - UTIL_INTERVAL, q) = Some u1"
    "twu (b, a, q - UTIL_INTERVAL, q) = Some u2"
    by (auto simp: hop_utilization_def and_then_Inr lookup_Inr)
  with assms hop_utilization_both[OF k] show ?thesis by auto
qed




lemma encode_float_Inr: "encode_float u = Inr enc \<Longrightarrow> \<exists>x. u = Finite x \<and> enc = encode x"
  by (cases u) (auto simp: encode_float_def split: if_splits)

lemma hop_step_Inr:
  assumes "hop_step g int_of twu q path p = Inr l"
  shows "p + 1 < length path \<and> int_of (path ! p) = Some (sat1 l)
       \<and> int_of (path ! (p + 1)) = Some (sat2 l)
       \<and> (\<exists>u1 u2 u. twu (sat1 l, sat2 l, q - UTIL_INTERVAL, q) = Some u1
             \<and> twu (sat2 l, sat1 l, q - UTIL_INTERVAL, q) = Some u2
             \<and> hop_utilization twu (sat1 l) (sat2 l) q = Inr (Finite u)
             \<and> link_width l = fst (encode u)
             \<and> hex_col l = snd (encode u))
       \<and> sat_at (sat_objs g) (sat1 l) = Inr (obj1 l)
       \<and> sat_at (sat_objs g) (sat2 l) = Inr (obj2 l)"
proof -
  from assms obtain s1 s2 u enc o1 o2 where
    n: "p < length path" "p + 1 < length path"
    and i: "int_of (path ! p) = Some s1" "int_of (path ! (p + 1)) = Some s2"
    and u: "hop_utilization twu s1 s2 q = Inr u"
    and e: "encode_float u = Inr enc"
    and o: "sat_at (sat_objs g) s1 = Inr o1" "sat_at (sat_objs g) s2 = Inr o2"
    and l: "l = \<lparr>sat1 = s1, sat2 = s2, obj1 = o1, obj2 = o2,
            link_width = fst enc, hex_col = snd enc\<rparr>"
    by (auto simp: hop_step_def and_then_Inr or_raise_Inr item_Inr)
  from encode_float_Inr[OF e] obtain x where x: "u = Finite x" "enc = encode x"
    by blast
  from hop_utilization_Inr[OF u] obtain u1 u2 where
    "twu (s1, s2, q - UTIL_INTERVAL, q) = Some u1" "twu (s2, s1, q - UTIL_INTERVAL, q) = Some u2"
    by blast
  with n i o l u x show ?thesis by auto
qed

lemma render_step_Inr:
  assumes "render_step g int_of twu q path p (viz, out) = Inr (viz', out')"
  shows "if rendered path p
         then (\<exists>l. hop_step g int_of twu q path p = Inr l \<and> viz' = viz @ [l])
         else viz' = viz"
  using assms
  by (auto simp: render_step_def rendered_def and_then_Inr split: if_splits)

lemma for_range_render:
  "for_range (render_step g int_of twu q path) ps (viz, out) = Inr (viz', out') \<Longrightarrow>
   \<exists>ls. viz' = viz @ ls \<and>
        list_all2 (\<lambda>p l. hop_step g int_of twu q path p = Inr l) (filter (rendered path) ps) ls"
proof (induction ps arbitrary: viz out)
  case Nil
  then show ?case by simp
next
  case (Cons p ps)
  from Cons.prems obtain viz1 out1 where
    step: "render_step g int_of twu q path p (viz, out) = Inr (viz1, out1)"
    and rest: "for_range (render_step g int_of twu q path) ps (viz1, out1) = Inr (viz', out')"
    by (auto simp: and_then_Inr)
  from Cons.IH[OF rest] obtain ls where ls: "viz' = viz1 @ ls"
    "list_all2 (\<lambda>p l. hop_step g int_of twu q path p = Inr l) (filter (rendered path) ps) ls"
    by blast
  show ?case
  proof (cases "rendered path p")
    case True
    with render_step_Inr[OF step] obtain l where
      l: "hop_step g int_of twu q path p = Inr l" "viz1 = viz @ [l]" by auto
    with ls True show ?thesis
      by (intro exI[of _ "l # ls"]) simp
  next
    case False
    with render_step_Inr[OF step] have "viz1 = viz" by simp
    with ls False show ?thesis by (intro exI[of _ ls]) simp
  qed
qed

lemma filter_rendered_upt:
  "filter (rendered path) [0 ..< length path] = [1 ..< length path - 2]"
proof (rule sorted_distinct_set_unique)
  show "sorted (filter (rendered path) [0 ..< length path])"
    by (rule sorted_wrt_filter) simp
  show "set (filter (rendered path) [0 ..< length path]) = set [1 ..< length path - 2]"
    by (auto simp: rendered_def)
qed simp_all

lemma render_path_links:
  assumes "render_path g int_of twu q path out = Inr (links, out')"
  shows "list_all2 (\<lambda>p l. hop_step g int_of twu q path p = Inr l) [1 ..< length path - 2] links"
  using for_range_render[OF assms[unfolded render_path_def]]
  by (simp add: filter_rendered_upt)

lemma for_range_append:
  "for_range body (ps @ qs) st = and_then (for_range body ps st) (for_range body qs)"
  by (induction ps arbitrary: st) (auto simp: and_then_def split: sum.splits)

lemma for_range_stops:
  assumes "p < n" and "for_range body [0 ..< p] st0 = Inr st" and "body p st = Inl e"
  shows "for_range body [0 ..< n] st0 = Inl e"
proof -
  from assms(1) have "[0 ..< n] = [0 ..< p] @ p # [Suc p ..< n]"
    by (metis le0 upt_add_eq_append upt_conv_Cons le_add_diff_inverse less_imp_le_nat)
  then show ?thesis
    by (simp add: for_range_append assms(2,3) and_then_def)
qed

text \<open>
  With the Telesat constants of lines 84 to 106 the product of line 208 is a list times a
  list: the first iteration of the loop raises TypeError (or ValueError, when the first
  node is no number), whatever the path, as long as it is not empty. The theorems on the
  loop below hold for every setting of the constants and say something for the numeric
  settings, where the loop can return.
\<close>

lemma telesat_render_raises:
  assumes "path \<noteq> []"
  shows "render_path (telesat cities sats) int_of twu q path out =
           Inl (if int_of (path ! 0) = None then ValueError else TypeError)"
proof -
  from assms have "0 < length path" by simp
  moreover have "for_range (render_step (telesat cities sats) int_of twu q path) [0 ..< 0] ([], out)
      = Inr ([], out)" by simp
  moreover have "render_step (telesat cities sats) int_of twu q path 0 ([], out)
      = Inl (if int_of (path ! 0) = None then ValueError else TypeError)"
    using assms
    by (auto simp: render_step_def gs_step_def telesat_def item_def and_then_def or_raise_def
        split: option.splits)
  ultimately show ?thesis
    unfolding render_path_def by (rule for_range_stops)
qed

lemma hop_utilization_miss:
  assumes "twu (a, b, q - UTIL_INTERVAL, q) = None \<or> twu (b, a, q - UTIL_INTERVAL, q) = None"
  shows "hop_utilization twu a b q = Inl KeyError"
  using assms
  by (auto simp: hop_utilization_def lookup_def or_raise_def and_then_def split: option.splits)

subsection \<open>The example run, evaluated\<close>

lemma scenario_timeline:
  "build_timeline scenario_int_of scenario_path_lines =
     Inr [(0, [''12'', ''10'', ''11'', ''9'', ''13'']), (0, [''12'', ''10'', ''11'', ''9'', ''13''])]"
  by (simp add: scenario_int_of_def scenario_path_lines_def build_timeline_def read_path_line_def
        and_then_def item_def or_raise_def)

lemma scenario_resolve:
  "resolve [(0, [''12'', ''10'', ''11'', ''9'', ''13'']), (0, [''12'', ''10'', ''11'', ''9'', ''13''])] 100
     = Inr (0, [''12'', ''10'', ''11'', ''9'', ''13''])"
  "resolve [(0, [''12'', ''10'', ''11'', ''9'', ''13'']), (0, [''12'', ''10'', ''11'', ''9'', ''13''])] 150
     = Inr (0, [''12'', ''10'', ''11'', ''9'', ''13''])"
  by (simp_all add: resolve_def resolve_from.simps next_start_def item_def and_then_def
        ms_of_ns_small)

lemma scenario_ingest:
  "ingest_util scenario_int_of scenario_float_of scenario_util_lines Map.empty = Inr scenario_index"
  by (simp add: scenario_int_of_def scenario_float_of_def scenario_util_lines_def
        scenario_index_def read_util_line_def and_then_def item_def or_raise_def
        store_sample_eq expand_buckets_unfold ms_of_ns_small)

lemma scenario_hop_1:
  "hop_step scenario_globals scenario_int_of scenario_index 100 [''12'', ''10'', ''11'', ''9'', ''13''] (Suc 0)
     = Inr (scenario_links ! 0)"
  by (simp add: hop_step_def scenario_globals_def scenario_int_of_def scenario_index_def
        scenario_links_def hop_utilization_def lookup_def and_then_def item_def or_raise_def
        sat_at_def UTIL_INTERVAL_def encode_float_def round_overflows_def encode_4_5)

lemma scenario_hop_2:
  "hop_step scenario_globals scenario_int_of scenario_index 100 [''12'', ''10'', ''11'', ''9'', ''13''] 2
     = Inr (scenario_links ! 1)"
  by (simp add: hop_step_def scenario_globals_def scenario_int_of_def scenario_index_def
        scenario_links_def hop_utilization_def lookup_def and_then_def item_def or_raise_def
        sat_at_def UTIL_INTERVAL_def encode_float_def round_overflows_def encode_full)

lemma scenario_gs:
  "gs_step scenario_globals scenario_int_of [''12'', ''10'', ''11'', ''9'', ''13''] 0 out
     = Inr (out @ ''_Rio_12'')"
  "gs_step scenario_globals scenario_int_of [''12'', ''10'', ''11'', ''9'', ''13''] 4 out
     = Inr (out @ ''_Oslo_13'')"
  by (simp_all add: gs_step_def scenario_globals_def scenario_int_of_def and_then_def item_def
        or_raise_def)

lemma upt_5: "[0 ..< 5] = [0, Suc 0, 2, 3, 4]"
  by (simp add: upt_rec)

lemma scenario_steps:
  "render_step scenario_globals scenario_int_of scenario_index 100
     [''12'', ''10'', ''11'', ''9'', ''13''] 0 (viz, out) = Inr (viz, out @ ''_Rio_12'')"
  "render_step scenario_globals scenario_int_of scenario_index 100
     [''12'', ''10'', ''11'', ''9'', ''13''] (Suc 0) (viz, out) = Inr (viz @ [scenario_links ! 0], out)"
  "render_step scenario_globals scenario_int_of scenario_index 100
     [''12'', ''10'', ''11'', ''9'', ''13''] 2 (viz, out) = Inr (viz @ [scenario_links ! 1], out)"
  "render_step scenario_globals scenario_int_of scenario_index 100
     [''12'', ''10'', ''11'', ''9'', ''13''] 3 (viz, out) = Inr (viz, out)"
  "render_step scenario_globals scenario_int_of scenario_index 100
     [''12'', ''10'', ''11'', ''9'', ''13''] 4 (viz, out) = Inr (viz, out @ ''_Oslo_13'')"
  by (simp_all add: render_step_def scenario_gs scenario_hop_1 scenario_hop_2 and_then_def)

lemma scenario_render:
  "render_path scenario_globals scenario_int_of scenario_index 100
     [''12'', ''10'', ''11'', ''9'', ''13''] ''out''
     = Inr (scenario_links, ''out_Rio_12_Oslo_13'')"
proof -
  have "for_range (render_step scenario_globals scenario_int_of scenario_index 100
          [''12'', ''10'', ''11'', ''9'', ''13'']) [0, Suc 0, 2, 3, 4] ([], ''out'')
        = Inr (([] @ [scenario_links ! 0]) @ [scenario_links ! 1], (''out'' @ ''_Rio_12'') @ ''_Oslo_13'')"
    by (simp only: for_range.simps scenario_steps and_then_def sum.case)
  moreover have "length [''12'', ''10'', ''11'', ''9'', ''13''] = 5" by simp
  ultimately show ?thesis
    unfolding render_path_def by (simp only: upt_5) (simp add: scenario_links_def)
qed

lemma scenario_generate:
  "generate_utilization_at_time scenario_globals scenario_int_of scenario_float_of
     scenario_path_lines scenario_util_lines 100 ''out''
     = Inr (scenario_links, ''out_Rio_12_Oslo_13'')"
  by (simp add: generate_utilization_at_time_def scenario_timeline scenario_resolve
        scenario_ingest scenario_render and_then_def)

lemma scenario_miss:
  "scenario_index (10, 11, 150 - UTIL_INTERVAL, 150) = None"
  by (simp add: scenario_index_def UTIL_INTERVAL_def)

lemma scenario_prefix:
  "for_range (render_step scenario_globals scenario_int_of scenario_index 150
       [''12'', ''10'', ''11'', ''9'', ''13'']) [0 ..< Suc 0] ([], ''out'')
     = Inr ([], ''out_Rio_12'')"
  by (simp add: render_step_def scenario_gs and_then_def)

subsection \<open>Which hops are drawn, and with which utilization\<close>

text \<open>
  For any setting of the constants under which the loop of lines 206 to 239 returns, the
  links it has drawn are, in order, exactly the hops that start at the positions
  \<open>1, ..., len(path) - 3\<close>, as the condition of line 211 says.
\<close>

lemma render_path_positions:
  assumes "render_path g int_of twu q path out = Inr (links, out')"
  shows "list_all2 (\<lambda>p l. hop_step g int_of twu q path p = Inr l) [1 ..< length path - 2] links
     \<and> map (\<lambda>l. (Some (sat1 l), Some (sat2 l))) links
         = map (\<lambda>p. (int_of (path ! p), int_of (path ! (p + 1)))) [1 ..< length path - 2]
     \<and> length links = length path - 3"
proof -
  note all = render_path_links[OF assms]
  have len: "length links = length [1 ..< length path - 2]"
    using list_all2_lengthD[OF all] by (simp only:)
  have "map (\<lambda>p. (int_of (path ! p), int_of (path ! (p + 1)))) [1 ..< length path - 2]
      = map (\<lambda>l. (Some (sat1 l), Some (sat2 l))) links"
  proof (rule nth_equalityI)
    show "length (map (\<lambda>p. (int_of (path ! p), int_of (path ! (p + 1)))) [1 ..< length path - 2])
        = length (map (\<lambda>l. (Some (sat1 l), Some (sat2 l))) links)"
      using len by simp
  next
    fix k assume "k < length (map (\<lambda>p. (int_of (path ! p), int_of (path ! (p + 1)))) [1 ..< length path - 2])"
    then have k: "k < length [1 ..< length path - 2]" by simp
    have "hop_step g int_of twu q path ([1 ..< length path - 2] ! k) = Inr (links ! k)"
      using list_all2_nthD[OF all k] .
    from hop_step_Inr[OF this] k len
    show "map (\<lambda>p. (int_of (path ! p), int_of (path ! (p + 1)))) [1 ..< length path - 2] ! k
        = map (\<lambda>l. (Some (sat1 l), Some (sat2 l))) links ! k"
      by simp
  qed
  moreover have "length links = length path - 3"
    unfolding len by simp
  ultimately show ?thesis using all by simp
qed

text \<open>
  Claim C6 (the hops at the positions \<open>0 < p < len(path) - 2\<close> are drawn). With the
  constants the file runs with, no hop is drawn: a run on a path of five nodes, with both
  buckets of every hop present, ends at line 208 in the first iteration with TypeError,
  whatever the ground stations and satellite objects are.
\<close>

theorem telesat_run_draws_no_hop:
  "generate_utilization_at_time (telesat cities sats) scenario_int_of scenario_float_of
     telesat_path_lines scenario_util_lines 100 out = Inl TypeError"
proof -
  let ?path = "[''1671'', ''10'', ''11'', ''9'', ''1672'']"
  have tl: "build_timeline scenario_int_of telesat_path_lines = Inr [(0, ?path), (0, ?path)]"
    by (simp add: scenario_int_of_def telesat_path_lines_def build_timeline_def
        read_path_line_def and_then_def item_def or_raise_def)
  have rs: "resolve [(0, ?path), (0, ?path)] 100 = Inr (0, ?path)"
    by (simp add: resolve_def resolve_from.simps next_start_def item_def and_then_def
        ms_of_ns_small)
  have "render_path (telesat cities sats) scenario_int_of scenario_index 100 ?path out
      = Inl (if scenario_int_of (?path ! 0) = None then ValueError else TypeError)"
    by (rule telesat_render_raises) simp
  then have rp: "render_path (telesat cities sats) scenario_int_of scenario_index 100 ?path out
      = Inl TypeError"
    by (simp add: scenario_int_of_def)
  show ?thesis
    by (simp add: generate_utilization_at_time_def tl rs scenario_ingest rp and_then_def)
qed

text \<open>
  Claim C8. A lookup of a key that has no bucket raises KeyError, and a lookup that returns
  a value returns the stored one: there is no default. A hop with a missing bucket in
  either direction raises KeyError, so does the loop body at its position, and the error
  of a loop body is the result of the loop and of the whole function, which returns what
  the loop returns once a path is selected. Conversely, when the loop returns, both
  buckets of every drawn position exist.
\<close>

theorem lookup_miss_raises:
  "(twu k = None \<longrightarrow> lookup twu k = Inl KeyError)
   \<and> (lookup twu k = Inr v \<longrightarrow> twu k = Some v)
   \<and> (twu (a, b, q - UTIL_INTERVAL, q) = None \<or> twu (b, a, q - UTIL_INTERVAL, q) = None
        \<longrightarrow> hop_utilization twu a b q = Inl KeyError)
   \<and> (rendered path p \<and> int_of (path ! p) = Some a \<and> int_of (path ! (p + 1)) = Some b
        \<and> (twu (a, b, q - UTIL_INTERVAL, q) = None \<or> twu (b, a, q - UTIL_INTERVAL, q) = None)
        \<longrightarrow> render_step g int_of twu q path p st = Inl KeyError)
   \<and> (p < length path
        \<and> for_range (render_step g int_of twu q path) [0 ..< p] ([], out) = Inr st
        \<and> render_step g int_of twu q path p st = Inl e
        \<longrightarrow> render_path g int_of twu q path out = Inl e)
   \<and> (render_path g int_of twu q path out = Inr (links, out') \<and> rendered path p
        \<longrightarrow> (\<exists>s1 s2 u1 u2. int_of (path ! p) = Some s1 \<and> int_of (path ! (p + 1)) = Some s2
              \<and> twu (s1, s2, q - UTIL_INTERVAL, q) = Some u1
              \<and> twu (s2, s1, q - UTIL_INTERVAL, q) = Some u2))
   \<and> (build_timeline int_of path_lines = Inr pot
        \<and> ingest_util int_of float_of util_lines Map.empty = Inr twu
        \<longrightarrow> generate_utilization_at_time g int_of float_of path_lines util_lines q out
            = (case resolve pot q of
                 Inl e \<Rightarrow> Inl e
               | Inr sel \<Rightarrow> render_path g int_of twu q (snd sel) out))"
proof (intro conjI impI)
  show "lookup twu k = Inl KeyError" if "twu k = None"
    using that by (simp add: lookup_def or_raise_def)
  show "twu k = Some v" if "lookup twu k = Inr v"
    using that by (simp add: lookup_Inr)
  show "hop_utilization twu a b q = Inl KeyError"
    if "twu (a, b, q - UTIL_INTERVAL, q) = None \<or> twu (b, a, q - UTIL_INTERVAL, q) = None"
    using that by (rule hop_utilization_miss)
next
  assume h: "rendered path p \<and> int_of (path ! p) = Some a \<and> int_of (path ! (p + 1)) = Some b
        \<and> (twu (a, b, q - UTIL_INTERVAL, q) = None \<or> twu (b, a, q - UTIL_INTERVAL, q) = None)"
  then have d: "twu (a, b, q - UTIL_INTERVAL, q) = None \<or> twu (b, a, q - UTIL_INTERVAL, q) = None"
    by simp
  note miss = hop_utilization_miss[OF d]
  from h have pos: "0 < p" "int p < int (length path) - 2" by (simp_all add: rendered_def)
  then have "p < length path" "p + 1 < length path" "p \<noteq> 0" "int p \<noteq> int (length path) - 1"
    by linarith+
  with h miss pos have "hop_step g int_of twu q path p = Inl KeyError"
    by (simp add: hop_step_def item_def and_then_def or_raise_def)
  with pos \<open>p \<noteq> 0\<close> \<open>int p \<noteq> int (length path) - 1\<close>
  show "render_step g int_of twu q path p st = Inl KeyError"
    by (cases st) (simp add: render_step_def and_then_def)
next
  assume "p < length path
        \<and> for_range (render_step g int_of twu q path) [0 ..< p] ([], out) = Inr st
        \<and> render_step g int_of twu q path p st = Inl e"
  then show "render_path g int_of twu q path out = Inl e"
    unfolding render_path_def by (intro for_range_stops[of p _ _ _ st]) simp_all
next
  assume h: "render_path g int_of twu q path out = Inr (links, out') \<and> rendered path p"
  then have rp: "render_path g int_of twu q path out = Inr (links, out')" by simp
  have all: "list_all2 (\<lambda>p l. hop_step g int_of twu q path p = Inr l)
      (filter (rendered path) [0 ..< length path]) links"
    unfolding filter_rendered_upt by (rule render_path_links[OF rp])
  from h have "p \<in> set (filter (rendered path) [0 ..< length path])"
    by (auto simp: rendered_def)
  then have "\<exists>k < length (filter (rendered path) [0 ..< length path]).
      filter (rendered path) [0 ..< length path] ! k = p"
    unfolding in_set_conv_nth .
  then obtain k where k: "k < length (filter (rendered path) [0 ..< length path])"
    "filter (rendered path) [0 ..< length path] ! k = p"
    by blast
  from list_all2_nthD[OF all k(1)] k(2)
  have "hop_step g int_of twu q path p = Inr (links ! k)" by simp
  from hop_step_Inr[OF this]
  show "\<exists>s1 s2 u1 u2. int_of (path ! p) = Some s1 \<and> int_of (path ! (p + 1)) = Some s2
              \<and> twu (s1, s2, q - UTIL_INTERVAL, q) = Some u1
              \<and> twu (s2, s1, q - UTIL_INTERVAL, q) = Some u2"
    by blast
next
  assume "build_timeline int_of path_lines = Inr pot
        \<and> ingest_util int_of float_of util_lines Map.empty = Inr twu"
  then show "generate_utilization_at_time g int_of float_of path_lines util_lines q out
            = (case resolve pot q of
                 Inl e \<Rightarrow> Inl e
               | Inr sel \<Rightarrow> render_path g int_of twu q (snd sel) out)"
    by (simp add: generate_utilization_at_time_def and_then_def split: prod.splits sum.splits)
qed

theorem lookup_miss_raises_witness:
  "lookup scenario_index (10, 11, 150 - UTIL_INTERVAL, 150) = Inl KeyError
   \<and> scenario_index (10, 11, 0, 100) = Some (Finite (4 / 5))
   \<and> hop_utilization scenario_index 10 11 150 = Inl KeyError
   \<and> render_step scenario_globals scenario_int_of scenario_index 150
        [''12'', ''10'', ''11'', ''9'', ''13''] (Suc 0) ([], ''out_Rio_12'') = Inl KeyError
   \<and> render_path scenario_globals scenario_int_of scenario_index 150
        [''12'', ''10'', ''11'', ''9'', ''13''] ''out'' = Inl KeyError
   \<and> (\<exists>s1 s2 u1 u2.
         scenario_int_of ([''12'', ''10'', ''11'', ''9'', ''13''] ! 2) = Some s1
       \<and> scenario_int_of ([''12'', ''10'', ''11'', ''9'', ''13''] ! (2 + 1)) = Some s2
       \<and> scenario_index (s1, s2, 100 - UTIL_INTERVAL, 100) = Some u1
       \<and> scenario_index (s2, s1, 100 - UTIL_INTERVAL, 100) = Some u2)
   \<and> generate_utilization_at_time scenario_globals scenario_int_of scenario_float_of
        scenario_path_lines scenario_util_lines 150 ''out'' = Inl KeyError"
proof -
  let ?path = "[''12'', ''10'', ''11'', ''9'', ''13'']"
  let ?pot = "[(0::int, ?path), (0, ?path)]"
  have h1: "scenario_index (10, 11, 150 - UTIL_INTERVAL, 150) = None"
    by (rule scenario_miss)
  have h2: "lookup scenario_index (10, 11, 0, 100) = Inr (Finite (4 / 5))"
    by (simp add: lookup_def or_raise_def scenario_index_def)
  have h3: "scenario_index (10, 11, 150 - UTIL_INTERVAL, 150) = None
      \<or> scenario_index (11, 10, 150 - UTIL_INTERVAL, 150) = None"
    using h1 by simp
  have h4: "rendered ?path (Suc 0) \<and> scenario_int_of (?path ! Suc 0) = Some 10
      \<and> scenario_int_of (?path ! (Suc 0 + 1)) = Some 11
      \<and> (scenario_index (10, 11, 150 - UTIL_INTERVAL, 150) = None
          \<or> scenario_index (11, 10, 150 - UTIL_INTERVAL, 150) = None)"
    using h1 by (simp add: rendered_def scenario_int_of_def)
  have c1: "lookup scenario_index (10, 11, 150 - UTIL_INTERVAL, 150) = Inl KeyError"
    using h1 lookup_miss_raises [where twu = scenario_index and k = "(10, 11, 150 - UTIL_INTERVAL, 150)"]
    by blast
  have c2: "scenario_index (10, 11, 0, 100) = Some (Finite (4 / 5))"
    using h2 lookup_miss_raises [where twu = scenario_index and k = "(10, 11, 0, 100)"
        and v = "Finite (4 / 5)"]
    by blast
  have c3: "hop_utilization scenario_index 10 11 150 = Inl KeyError"
    using h3 lookup_miss_raises [where twu = scenario_index and a = 10 and b = 11 and q = 150]
    by blast
  have c4: "render_step scenario_globals scenario_int_of scenario_index 150 ?path (Suc 0)
      ([], ''out_Rio_12'') = Inl KeyError"
    using h4 lookup_miss_raises [where twu = scenario_index and a = 10 and b = 11 and q = 150
        and path = ?path and p = "Suc 0" and int_of = scenario_int_of and g = scenario_globals
        and st = "([], ''out_Rio_12'')"]
    by blast
  have h5: "Suc 0 < length ?path
      \<and> for_range (render_step scenario_globals scenario_int_of scenario_index 150 ?path)
          [0 ..< Suc 0] ([], ''out'') = Inr ([], ''out_Rio_12'')
      \<and> render_step scenario_globals scenario_int_of scenario_index 150 ?path (Suc 0)
          ([], ''out_Rio_12'') = Inl KeyError"
    using c4 scenario_prefix by simp
  have c5: "render_path scenario_globals scenario_int_of scenario_index 150 ?path ''out''
      = Inl KeyError"
    using h5 lookup_miss_raises [where twu = scenario_index and q = 150
        and path = ?path and p = "Suc 0" and int_of = scenario_int_of and g = scenario_globals
        and st = "([], ''out_Rio_12'')" and out = "''out''" and e = KeyError]
    by blast
  have h6: "render_path scenario_globals scenario_int_of scenario_index 100 ?path ''out''
        = Inr (scenario_links, ''out_Rio_12_Oslo_13'') \<and> rendered ?path 2"
    by (simp add: scenario_render rendered_def)
  have c6: "\<exists>s1 s2 u1 u2.
         scenario_int_of (?path ! 2) = Some s1
       \<and> scenario_int_of (?path ! (2 + 1)) = Some s2
       \<and> scenario_index (s1, s2, 100 - UTIL_INTERVAL, 100) = Some u1
       \<and> scenario_index (s2, s1, 100 - UTIL_INTERVAL, 100) = Some u2"
    using h6 lookup_miss_raises [where twu = scenario_index and q = 100
        and path = ?path and p = 2 and int_of = scenario_int_of and g = scenario_globals
        and out = "''out''" and links = scenario_links and out' = "''out_Rio_12_Oslo_13''"]
    by blast
  have h7: "build_timeline scenario_int_of scenario_path_lines = Inr ?pot
      \<and> ingest_util scenario_int_of scenario_float_of scenario_util_lines Map.empty
          = Inr scenario_index"
    by (simp add: scenario_timeline scenario_ingest)
  have "generate_utilization_at_time scenario_globals scenario_int_of scenario_float_of
        scenario_path_lines scenario_util_lines 150 ''out''
      = (case resolve ?pot 150 of
           Inl e \<Rightarrow> Inl e
         | Inr sel \<Rightarrow> render_path scenario_globals scenario_int_of scenario_index 150
                       (snd sel) ''out'')"
    using h7 lookup_miss_raises [where twu = scenario_index and q = 150
        and int_of = scenario_int_of and g = scenario_globals and out = "''out''"
        and path_lines = scenario_path_lines and util_lines = scenario_util_lines
        and float_of = scenario_float_of and pot = ?pot]
    by blast
  then have c7: "generate_utilization_at_time scenario_globals scenario_int_of scenario_float_of
        scenario_path_lines scenario_util_lines 150 ''out'' = Inl KeyError"
    by (simp add: scenario_resolve c5)
  from c1 c2 c3 c4 c5 c6 c7 show ?thesis by blast
qed











end
